theory Spec2Isabelle
  imports Main
begin

section \<open>Text: Python strings as lists of code points\<close>

text \<open>
  A Python \<^verbatim>\<open>str\<close> is a sequence of Unicode code points, so a string is a list of
  natural numbers. The uploaded document is a \<^verbatim>\<open>bytes\<close> object: a list of 8-bit
  characters, which \<^verbatim>\<open>decode("latin-1")\<close> maps to the code points 0..255.
\<close>

type_synonym ustr = "nat list"

definition str :: "string \<Rightarrow> ustr" where
  "str s = map of_char s"

text \<open>
  Character classes of CPython 3.11 (Unicode 14.0.0), as sorted tables of inclusive
  ranges: \<^verbatim>\<open>\s\<close> and \<^verbatim>\<open>str.strip\<close> share the white space table, \<^verbatim>\<open>\d\<close> is the
  category Nd, \<^verbatim>\<open>\w\<close> is the alphanumeric code points and the underscore.
\<close>

fun in_table :: "nat \<Rightarrow> (nat \<times> nat) list \<Rightarrow> bool" where
  "in_table c [] = False"
| "in_table c ((lo, hi) # rs) =
     (if c < lo then False else if c \<le> hi then True else in_table c rs)"

text \<open>A bracketed set of a pattern, such as \<^verbatim>\<open>[0-9a-fA-F]\<close>, lists its ranges in any order.\<close>

fun in_ranges :: "nat \<Rightarrow> (nat \<times> nat) list \<Rightarrow> bool" where
  "in_ranges c [] = False"
| "in_ranges c ((lo, hi) # rs) = ((lo \<le> c \<and> c \<le> hi) \<or> in_ranges c rs)"

definition space_ranges :: "(nat \<times> nat) list" where
  "space_ranges = [(9, 13), (28, 32), (133, 133), (160, 160), (5760, 5760), (8192, 8202),
     (8232, 8233), (8239, 8239), (8287, 8287), (12288, 12288)]"

definition digit_ranges :: "(nat \<times> nat) list" where
  "digit_ranges = [(48, 57), (1632, 1641), (1776, 1785), (1984, 1993), (2406, 2415), (2534, 2543), (2662,
     2671), (2790, 2799), (2918, 2927), (3046, 3055), (3174, 3183), (3302, 3311), (3430,
     3439), (3558, 3567), (3664, 3673), (3792, 3801), (3872, 3881), (4160, 4169), (4240,
     4249), (6112, 6121), (6160, 6169), (6470, 6479), (6608, 6617), (6784, 6793), (6800,
     6809), (6992, 7001), (7088, 7097), (7232, 7241), (7248, 7257), (42528, 42537), (43216,
     43225), (43264, 43273), (43472, 43481), (43504, 43513), (43600, 43609), (44016, 44025),
     (65296, 65305), (66720, 66729), (68912, 68921), (69734, 69743), (69872, 69881), (69942,
     69951), (70096, 70105), (70384, 70393), (70736, 70745), (70864, 70873), (71248, 71257),
     (71360, 71369), (71472, 71481), (71904, 71913), (72016, 72025), (72784, 72793), (73040,
     73049), (73120, 73129), (92768, 92777), (92864, 92873), (93008, 93017), (120782,
     120831), (123200, 123209), (123632, 123641), (125264, 125273), (130032, 130041)]"

definition word_ranges :: "(nat \<times> nat) list" where
  "word_ranges = [(48, 57), (65, 90), (95, 95), (97, 122), (170, 170), (178, 179), (181, 181), (185, 186),
     (188, 190), (192, 214), (216, 246), (248, 705), (710, 721), (736, 740), (748, 748),
     (750, 750), (880, 884), (886, 887), (890, 893), (895, 895), (902, 902), (904, 906),
     (908, 908), (910, 929), (931, 1013), (1015, 1153), (1162, 1327), (1329, 1366), (1369,
     1369), (1376, 1416), (1488, 1514), (1519, 1522), (1568, 1610), (1632, 1641), (1646,
     1647), (1649, 1747), (1749, 1749), (1765, 1766), (1774, 1788), (1791, 1791), (1808,
     1808), (1810, 1839), (1869, 1957), (1969, 1969), (1984, 2026), (2036, 2037), (2042,
     2042), (2048, 2069), (2074, 2074), (2084, 2084), (2088, 2088), (2112, 2136), (2144,
     2154), (2160, 2183), (2185, 2190), (2208, 2249), (2308, 2361), (2365, 2365), (2384,
     2384), (2392, 2401), (2406, 2415), (2417, 2432), (2437, 2444), (2447, 2448), (2451,
     2472), (2474, 2480), (2482, 2482), (2486, 2489), (2493, 2493), (2510, 2510), (2524,
     2525), (2527, 2529), (2534, 2545), (2548, 2553), (2556, 2556), (2565, 2570), (2575,
     2576), (2579, 2600), (2602, 2608), (2610, 2611), (2613, 2614), (2616, 2617), (2649,
     2652), (2654, 2654), (2662, 2671), (2674, 2676), (2693, 2701), (2703, 2705), (2707,
     2728), (2730, 2736), (2738, 2739), (2741, 2745), (2749, 2749), (2768, 2768), (2784,
     2785), (2790, 2799), (2809, 2809), (2821, 2828), (2831, 2832), (2835, 2856), (2858,
     2864), (2866, 2867), (2869, 2873), (2877, 2877), (2908, 2909), (2911, 2913), (2918,
     2927), (2929, 2935), (2947, 2947), (2949, 2954), (2958, 2960), (2962, 2965), (2969,
     2970), (2972, 2972), (2974, 2975), (2979, 2980), (2984, 2986), (2990, 3001), (3024,
     3024), (3046, 3058), (3077, 3084), (3086, 3088), (3090, 3112), (3114, 3129), (3133,
     3133), (3160, 3162), (3165, 3165), (3168, 3169), (3174, 3183), (3192, 3198), (3200,
     3200), (3205, 3212), (3214, 3216), (3218, 3240), (3242, 3251), (3253, 3257), (3261,
     3261), (3293, 3294), (3296, 3297), (3302, 3311), (3313, 3314), (3332, 3340), (3342,
     3344), (3346, 3386), (3389, 3389), (3406, 3406), (3412, 3414), (3416, 3425), (3430,
     3448), (3450, 3455), (3461, 3478), (3482, 3505), (3507, 3515), (3517, 3517), (3520,
     3526), (3558, 3567), (3585, 3632), (3634, 3635), (3648, 3654), (3664, 3673), (3713,
     3714), (3716, 3716), (3718, 3722), (3724, 3747), (3749, 3749), (3751, 3760), (3762,
     3763), (3773, 3773), (3776, 3780), (3782, 3782), (3792, 3801), (3804, 3807), (3840,
     3840), (3872, 3891), (3904, 3911), (3913, 3948), (3976, 3980), (4096, 4138), (4159,
     4169), (4176, 4181), (4186, 4189), (4193, 4193), (4197, 4198), (4206, 4208), (4213,
     4225), (4238, 4238), (4240, 4249), (4256, 4293), (4295, 4295), (4301, 4301), (4304,
     4346), (4348, 4680), (4682, 4685), (4688, 4694), (4696, 4696), (4698, 4701), (4704,
     4744), (4746, 4749), (4752, 4784), (4786, 4789), (4792, 4798), (4800, 4800), (4802,
     4805), (4808, 4822), (4824, 4880), (4882, 4885), (4888, 4954), (4969, 4988), (4992,
     5007), (5024, 5109), (5112, 5117), (5121, 5740), (5743, 5759), (5761, 5786), (5792,
     5866), (5870, 5880), (5888, 5905), (5919, 5937), (5952, 5969), (5984, 5996), (5998,
     6000), (6016, 6067), (6103, 6103), (6108, 6108), (6112, 6121), (6128, 6137), (6160,
     6169), (6176, 6264), (6272, 6276), (6279, 6312), (6314, 6314), (6320, 6389), (6400,
     6430), (6470, 6509), (6512, 6516), (6528, 6571), (6576, 6601), (6608, 6618), (6656,
     6678), (6688, 6740), (6784, 6793), (6800, 6809), (6823, 6823), (6917, 6963), (6981,
     6988), (6992, 7001), (7043, 7072), (7086, 7141), (7168, 7203), (7232, 7241), (7245,
     7293), (7296, 7304), (7312, 7354), (7357, 7359), (7401, 7404), (7406, 7411), (7413,
     7414), (7418, 7418), (7424, 7615), (7680, 7957), (7960, 7965), (7968, 8005), (8008,
     8013), (8016, 8023), (8025, 8025), (8027, 8027), (8029, 8029), (8031, 8061), (8064,
     8116), (8118, 8124), (8126, 8126), (8130, 8132), (8134, 8140), (8144, 8147), (8150,
     8155), (8160, 8172), (8178, 8180), (8182, 8188), (8304, 8305), (8308, 8313), (8319,
     8329), (8336, 8348), (8450, 8450), (8455, 8455), (8458, 8467), (8469, 8469), (8473,
     8477), (8484, 8484), (8486, 8486), (8488, 8488), (8490, 8493), (8495, 8505), (8508,
     8511), (8517, 8521), (8526, 8526), (8528, 8585), (9312, 9371), (9450, 9471), (10102,
     10131), (11264, 11492), (11499, 11502), (11506, 11507), (11517, 11517), (11520, 11557),
     (11559, 11559), (11565, 11565), (11568, 11623), (11631, 11631), (11648, 11670), (11680,
     11686), (11688, 11694), (11696, 11702), (11704, 11710), (11712, 11718), (11720, 11726),
     (11728, 11734), (11736, 11742), (11823, 11823), (12293, 12295), (12321, 12329), (12337,
     12341), (12344, 12348), (12353, 12438), (12445, 12447), (12449, 12538), (12540, 12543),
     (12549, 12591), (12593, 12686), (12690, 12693), (12704, 12735), (12784, 12799), (12832,
     12841), (12872, 12879), (12881, 12895), (12928, 12937), (12977, 12991), (13312, 19903),
     (19968, 42124), (42192, 42237), (42240, 42508), (42512, 42539), (42560, 42606), (42623,
     42653), (42656, 42735), (42775, 42783), (42786, 42888), (42891, 42954), (42960, 42961),
     (42963, 42963), (42965, 42969), (42994, 43009), (43011, 43013), (43015, 43018), (43020,
     43042), (43056, 43061), (43072, 43123), (43138, 43187), (43216, 43225), (43250, 43255),
     (43259, 43259), (43261, 43262), (43264, 43301), (43312, 43334), (43360, 43388), (43396,
     43442), (43471, 43481), (43488, 43492), (43494, 43518), (43520, 43560), (43584, 43586),
     (43588, 43595), (43600, 43609), (43616, 43638), (43642, 43642), (43646, 43695), (43697,
     43697), (43701, 43702), (43705, 43709), (43712, 43712), (43714, 43714), (43739, 43741),
     (43744, 43754), (43762, 43764), (43777, 43782), (43785, 43790), (43793, 43798), (43808,
     43814), (43816, 43822), (43824, 43866), (43868, 43881), (43888, 44002), (44016, 44025),
     (44032, 55203), (55216, 55238), (55243, 55291), (63744, 64109), (64112, 64217), (64256,
     64262), (64275, 64279), (64285, 64285), (64287, 64296), (64298, 64310), (64312, 64316),
     (64318, 64318), (64320, 64321), (64323, 64324), (64326, 64433), (64467, 64829), (64848,
     64911), (64914, 64967), (65008, 65019), (65136, 65140), (65142, 65276), (65296, 65305),
     (65313, 65338), (65345, 65370), (65382, 65470), (65474, 65479), (65482, 65487), (65490,
     65495), (65498, 65500), (65536, 65547), (65549, 65574), (65576, 65594), (65596, 65597),
     (65599, 65613), (65616, 65629), (65664, 65786), (65799, 65843), (65856, 65912), (65930,
     65931), (66176, 66204), (66208, 66256), (66273, 66299), (66304, 66339), (66349, 66378),
     (66384, 66421), (66432, 66461), (66464, 66499), (66504, 66511), (66513, 66517), (66560,
     66717), (66720, 66729), (66736, 66771), (66776, 66811), (66816, 66855), (66864, 66915),
     (66928, 66938), (66940, 66954), (66956, 66962), (66964, 66965), (66967, 66977), (66979,
     66993), (66995, 67001), (67003, 67004), (67072, 67382), (67392, 67413), (67424, 67431),
     (67456, 67461), (67463, 67504), (67506, 67514), (67584, 67589), (67592, 67592), (67594,
     67637), (67639, 67640), (67644, 67644), (67647, 67669), (67672, 67702), (67705, 67742),
     (67751, 67759), (67808, 67826), (67828, 67829), (67835, 67867), (67872, 67897), (67968,
     68023), (68028, 68047), (68050, 68096), (68112, 68115), (68117, 68119), (68121, 68149),
     (68160, 68168), (68192, 68222), (68224, 68255), (68288, 68295), (68297, 68324), (68331,
     68335), (68352, 68405), (68416, 68437), (68440, 68466), (68472, 68497), (68521, 68527),
     (68608, 68680), (68736, 68786), (68800, 68850), (68858, 68899), (68912, 68921), (69216,
     69246), (69248, 69289), (69296, 69297), (69376, 69415), (69424, 69445), (69457, 69460),
     (69488, 69505), (69552, 69579), (69600, 69622), (69635, 69687), (69714, 69743), (69745,
     69746), (69749, 69749), (69763, 69807), (69840, 69864), (69872, 69881), (69891, 69926),
     (69942, 69951), (69956, 69956), (69959, 69959), (69968, 70002), (70006, 70006), (70019,
     70066), (70081, 70084), (70096, 70106), (70108, 70108), (70113, 70132), (70144, 70161),
     (70163, 70187), (70272, 70278), (70280, 70280), (70282, 70285), (70287, 70301), (70303,
     70312), (70320, 70366), (70384, 70393), (70405, 70412), (70415, 70416), (70419, 70440),
     (70442, 70448), (70450, 70451), (70453, 70457), (70461, 70461), (70480, 70480), (70493,
     70497), (70656, 70708), (70727, 70730), (70736, 70745), (70751, 70753), (70784, 70831),
     (70852, 70853), (70855, 70855), (70864, 70873), (71040, 71086), (71128, 71131), (71168,
     71215), (71236, 71236), (71248, 71257), (71296, 71338), (71352, 71352), (71360, 71369),
     (71424, 71450), (71472, 71483), (71488, 71494), (71680, 71723), (71840, 71922), (71935,
     71942), (71945, 71945), (71948, 71955), (71957, 71958), (71960, 71983), (71999, 71999),
     (72001, 72001), (72016, 72025), (72096, 72103), (72106, 72144), (72161, 72161), (72163,
     72163), (72192, 72192), (72203, 72242), (72250, 72250), (72272, 72272), (72284, 72329),
     (72349, 72349), (72368, 72440), (72704, 72712), (72714, 72750), (72768, 72768), (72784,
     72812), (72818, 72847), (72960, 72966), (72968, 72969), (72971, 73008), (73030, 73030),
     (73040, 73049), (73056, 73061), (73063, 73064), (73066, 73097), (73112, 73112), (73120,
     73129), (73440, 73458), (73648, 73648), (73664, 73684), (73728, 74649), (74752, 74862),
     (74880, 75075), (77712, 77808), (77824, 78894), (82944, 83526), (92160, 92728), (92736,
     92766), (92768, 92777), (92784, 92862), (92864, 92873), (92880, 92909), (92928, 92975),
     (92992, 92995), (93008, 93017), (93019, 93025), (93027, 93047), (93053, 93071), (93760,
     93846), (93952, 94026), (94032, 94032), (94099, 94111), (94176, 94177), (94179, 94179),
     (94208, 100343), (100352, 101589), (101632, 101640), (110576, 110579), (110581, 110587),
     (110589, 110590), (110592, 110882), (110928, 110930), (110948, 110951), (110960,
     111355), (113664, 113770), (113776, 113788), (113792, 113800), (113808, 113817),
     (119520, 119539), (119648, 119672), (119808, 119892), (119894, 119964), (119966,
     119967), (119970, 119970), (119973, 119974), (119977, 119980), (119982, 119993),
     (119995, 119995), (119997, 120003), (120005, 120069), (120071, 120074), (120077,
     120084), (120086, 120092), (120094, 120121), (120123, 120126), (120128, 120132),
     (120134, 120134), (120138, 120144), (120146, 120485), (120488, 120512), (120514,
     120538), (120540, 120570), (120572, 120596), (120598, 120628), (120630, 120654),
     (120656, 120686), (120688, 120712), (120714, 120744), (120746, 120770), (120772,
     120779), (120782, 120831), (122624, 122654), (123136, 123180), (123191, 123197),
     (123200, 123209), (123214, 123214), (123536, 123565), (123584, 123627), (123632,
     123641), (124896, 124902), (124904, 124907), (124909, 124910), (124912, 124926),
     (124928, 125124), (125127, 125135), (125184, 125251), (125259, 125259), (125264,
     125273), (126065, 126123), (126125, 126127), (126129, 126132), (126209, 126253),
     (126255, 126269), (126464, 126467), (126469, 126495), (126497, 126498), (126500,
     126500), (126503, 126503), (126505, 126514), (126516, 126519), (126521, 126521),
     (126523, 126523), (126530, 126530), (126535, 126535), (126537, 126537), (126539,
     126539), (126541, 126543), (126545, 126546), (126548, 126548), (126551, 126551),
     (126553, 126553), (126555, 126555), (126557, 126557), (126559, 126559), (126561,
     126562), (126564, 126564), (126567, 126570), (126572, 126578), (126580, 126583),
     (126585, 126588), (126590, 126590), (126592, 126601), (126603, 126619), (126625,
     126627), (126629, 126633), (126635, 126651), (127232, 127244), (130032, 130041),
     (131072, 173791), (173824, 177976), (177984, 178205), (178208, 183969), (183984,
     191456), (194560, 195101), (196608, 201546)]"

definition is_space :: "nat \<Rightarrow> bool" where
  "is_space c = in_table c space_ranges"

definition is_digit :: "nat \<Rightarrow> bool" where
  "is_digit c = in_table c digit_ranges"

definition is_word :: "nat \<Rightarrow> bool" where
  "is_word c = in_table c word_ranges"

text \<open>
  Matching a letter of a pattern compiled with \<^verbatim>\<open>re.IGNORECASE\<close>: the code points whose
  simple lower case is the letter's, and the extra equivalents CPython adds for i, k,
  s and the A with ring. The patterns of this program use ASCII letters and the two
  Danish capitals 197 and 198 only.
\<close>

definition case_variants :: "nat \<Rightarrow> nat list" where
  "case_variants a =
     (let l = (if (65 \<le> a \<and> a \<le> 90) \<or> a = 197 \<or> a = 198 then a + 32 else a) in
      if 97 \<le> l \<and> l \<le> 122 then
        [l - 32, l] @ (if l = 105 then [304, 305] else if l = 107 then [8490]
                       else if l = 115 then [383] else [])
      else if l = 229 then [197, 229, 8491]
      else if l = 230 then [198, 230]
      else [a])"

section \<open>Regular expressions: a backtracking matcher in the order of Python's re\<close>

text \<open>
  The patterns of the program are values of \<open>regex\<close>. \<open>Rep m n g r\<close> is the counted
  repetition \<^verbatim>\<open>r{m,n}\<close> (\<open>None\<close>: unbounded), greedy when \<open>g\<close> holds and lazy otherwise;
  \<open>Grp k r\<close> is the k-th capturing group; \<open>LitI\<close> is a literal of a pattern compiled
  with \<^verbatim>\<open>re.IGNORECASE\<close>; \<open>Cls\<close> is a bracketed set given by its ranges.
\<close>

datatype regex =
    Eps
  | Lit nat
  | LitI nat
  | Cls "(nat \<times> nat) list"
  | Dot
  | Digit
  | Space
  | Bol
  | Eol
  | WordB
  | Seq regex regex
  | Alt regex regex
  | Grp nat regex
  | Rep nat "nat option" bool regex

type_synonym caps = "(nat \<times> nat \<times> nat) list"

fun rsize :: "regex \<Rightarrow> nat" where
  "rsize (Seq a b) = Suc (rsize a + rsize b)"
| "rsize (Alt a b) = Suc (rsize a + rsize b)"
| "rsize (Grp k r) = Suc (rsize r)"
| "rsize (Rep m n g r) = Suc (rsize r)"
| "rsize r = 0"

fun dec_max :: "nat option \<Rightarrow> nat option" where
  "dec_max None = None"
| "dec_max (Some n) = Some (n - 1)"

text \<open>
  The state of the matcher: the position in the text, the character before it (for
  \<^verbatim>\<open>\b\<close>), the rest of the text from the position on, and the groups captured so far.
\<close>

type_synonym mstate = "nat \<times> nat option \<times> ustr \<times> caps"

definition pos_of :: "mstate \<Rightarrow> nat" where
  "pos_of e = fst e"

definition prev_of :: "mstate \<Rightarrow> nat option" where
  "prev_of e = fst (snd e)"

definition rest_of :: "mstate \<Rightarrow> ustr" where
  "rest_of e = fst (snd (snd e))"

definition caps_of :: "mstate \<Rightarrow> caps" where
  "caps_of e = snd (snd (snd e))"

definition at_word_boundary :: "nat option \<Rightarrow> ustr \<Rightarrow> bool" where
  "at_word_boundary p rest =
     ((case p of None \<Rightarrow> False | Some a \<Rightarrow> is_word a)
      \<noteq> (case rest of [] \<Rightarrow> False | x # xs \<Rightarrow> is_word x))"

text \<open>\<^verbatim>\<open>$\<close> matches at the end of the text and before a newline that ends the text.\<close>

definition at_end :: "ustr \<Rightarrow> bool" where
  "at_end rest = (rest = [] \<or> rest = [10])"

text \<open>A pattern for one character matches when the next character is in its class.\<close>

fun step_if :: "(nat \<Rightarrow> bool) \<Rightarrow> mstate \<Rightarrow> mstate list" where
  "step_if P (i, p, [], c) = []"
| "step_if P (i, p, x # xs, c) = (if P x then [(Suc i, Some x, xs, c)] else [])"

fun set_group :: "nat \<Rightarrow> nat \<Rightarrow> mstate \<Rightarrow> mstate" where
  "set_group k i (j, q, rest, c) = (j, q, rest, (k, i, j) # c)"

text \<open>
  \<open>rx r st\<close> lists every way \<open>r\<close> can match from the state \<open>st\<close>, as the states
  reached, in the order in which a backtracking matcher tries them: the head is the
  match Python reports. A repetition goes on only after an iteration that consumed a
  character; every repeated subpattern of this program consumes one.
\<close>

function rx :: "regex \<Rightarrow> mstate \<Rightarrow> mstate list" where
  "rx Eps st = [st]"
| "rx (Lit a) st = step_if (\<lambda>x. x = a) st"
| "rx (LitI a) st = step_if (\<lambda>x. x \<in> set (case_variants a)) st"
| "rx (Cls rs) st = step_if (\<lambda>x. in_ranges x rs) st"
| "rx Dot st = step_if (\<lambda>x. x \<noteq> 10) st"
| "rx Digit st = step_if is_digit st"
| "rx Space st = step_if is_space st"
| "rx Bol st = (if pos_of st = 0 then [st] else [])"
| "rx Eol st = (if at_end (rest_of st) then [st] else [])"
| "rx WordB st = (if at_word_boundary (prev_of st) (rest_of st) then [st] else [])"
| "rx (Seq a b) st = concat (map (rx b) (rx a st))"
| "rx (Alt a b) st = rx a st @ rx b st"
| "rx (Grp k r) st = map (set_group k (pos_of st)) (rx r st)"
| "rx (Rep m n g r) st =
     (if g then
        (if n = Some 0 then []
         else concat (map (rx (Rep (m - 1) (dec_max n) g r))
                (filter (\<lambda>e. length (rest_of e) < length (rest_of st)) (rx r st))))
        @ (if m = 0 then [st] else [])
      else
        (if m = 0 then [st] else [])
        @ (if n = Some 0 then []
           else concat (map (rx (Rep (m - 1) (dec_max n) g r))
                  (filter (\<lambda>e. length (rest_of e) < length (rest_of st)) (rx r st)))))"
  by pat_completeness auto
termination
  by (relation "inv_image (less_than <*lex*> less_than)
                  (\<lambda>(r, st). (rsize r, length (rest_of st)))") auto

declare rx.simps [simp del]



text \<open>Pattern constructors: \<^verbatim>\<open>r+\<close>, \<^verbatim>\<open>r*\<close>, \<^verbatim>\<open>r?\<close>, \<^verbatim>\<open>r{n}\<close>, \<^verbatim>\<open>r+?\<close>, sequences, alternatives, literals.\<close>

abbreviation Plus :: "regex \<Rightarrow> regex" where
  "Plus r \<equiv> Rep 1 None True r"

abbreviation Star :: "regex \<Rightarrow> regex" where
  "Star r \<equiv> Rep 0 None True r"

abbreviation Opt :: "regex \<Rightarrow> regex" where
  "Opt r \<equiv> Rep 0 (Some 1) True r"

abbreviation Times :: "nat \<Rightarrow> regex \<Rightarrow> regex" where
  "Times n r \<equiv> Rep n (Some n) True r"

abbreviation LazyPlus :: "regex \<Rightarrow> regex" where
  "LazyPlus r \<equiv> Rep 1 None False r"

fun seqs :: "regex list \<Rightarrow> regex" where
  "seqs [] = Eps"
| "seqs [r] = r"
| "seqs (r # rs) = Seq r (seqs rs)"

fun alts :: "regex list \<Rightarrow> regex" where
  "alts [] = Eps"
| "alts [r] = r"
| "alts (r # rs) = Alt r (alts rs)"

definition lit :: "ustr \<Rightarrow> regex" where
  "lit s = seqs (map Lit s)"

definition liti :: "ustr \<Rightarrow> regex" where
  "liti s = seqs (map LitI s)"

text \<open>
  A match is its start, its end and its groups. \<open>group s m k\<close> is \<^verbatim>\<open>m.group(k)\<close>, the text
  of group \<open>k\<close> in the last iteration that captured it; every group of this program's
  patterns takes part in every match, so the empty text for an absent group is never
  read.
\<close>

type_synonym rmatch = "nat \<times> nat \<times> caps"

definition group :: "ustr \<Rightarrow> rmatch \<Rightarrow> nat \<Rightarrow> ustr" where
  "group s m k =
     (case map_of (snd (snd m)) k of None \<Rightarrow> [] | Some (a, b) \<Rightarrow> take (b - a) (drop a s))"

text \<open>\<^verbatim>\<open>re.match\<close> tries the start of the text only.\<close>

definition re_match :: "regex \<Rightarrow> ustr \<Rightarrow> rmatch option" where
  "re_match r s =
     (case rx r (0, None, s, []) of [] \<Rightarrow> None | e # es \<Rightarrow> Some (0, pos_of e, caps_of e))"

text \<open>\<^verbatim>\<open>re.search\<close> tries every position from left to right, the end of the text included.\<close>

fun search_at :: "regex \<Rightarrow> nat \<Rightarrow> nat option \<Rightarrow> ustr \<Rightarrow> rmatch option" where
  "search_at r i p [] =
     (case rx r (i, p, [], []) of [] \<Rightarrow> None | e # es \<Rightarrow> Some (i, pos_of e, caps_of e))"
| "search_at r i p (x # xs) =
     (case rx r (i, p, x # xs, []) of
        [] \<Rightarrow> search_at r (Suc i) (Some x) xs
      | e # es \<Rightarrow> Some (i, pos_of e, caps_of e))"

definition re_search :: "regex \<Rightarrow> ustr \<Rightarrow> rmatch option" where
  "re_search r s = search_at r 0 None s"

definition found :: "regex \<Rightarrow> ustr \<Rightarrow> bool" where
  "found r s = (re_search r s \<noteq> None)"

section \<open>Errors and re.sub\<close>

text \<open>
  The exceptions of the program: the two that the built-ins of the decoder raise, and
  whatever the constructor of the data frame raises at the end of the entry point.
\<close>

datatype error = ValueError | OverflowError | DataFrameError

definition prepend :: "ustr \<Rightarrow> error + ustr \<Rightarrow> error + ustr" where
  "prepend p m = (case m of Inl x \<Rightarrow> Inl x | Inr t \<Rightarrow> Inr (p @ t))"

definition bindE :: "error + 'a \<Rightarrow> ('a \<Rightarrow> error + 'b) \<Rightarrow> error + 'b" where
  "bindE m f = (case m of Inl x \<Rightarrow> Inl x | Inr t \<Rightarrow> f t)"

text \<open>
  \<^verbatim>\<open>re.sub(pattern, repl, string)\<close>: the matches are found from left to right, each
  search starting where the last match ended, and \<open>repl\<close> is called on each in turn, so
  the first exception it raises is the one that leaves \<^verbatim>\<open>re.sub\<close>. No pattern of the
  program matches the empty string; for one that did, the replacement is followed by
  the next character.
\<close>

function sub_at :: "regex \<Rightarrow> (ustr \<Rightarrow> rmatch \<Rightarrow> error + ustr) \<Rightarrow> ustr
    \<Rightarrow> nat \<Rightarrow> nat option \<Rightarrow> ustr \<Rightarrow> error + ustr" where
  "sub_at r f s i p rest =
     (case rx r (i, p, rest, []) of
        [] \<Rightarrow> (case rest of [] \<Rightarrow> Inr [] | x # xs \<Rightarrow> prepend [x] (sub_at r f s (Suc i) (Some x) xs))
      | e # es \<Rightarrow>
          (case f s (i, pos_of e, caps_of e) of
             Inl err \<Rightarrow> Inl err
           | Inr rep \<Rightarrow>
               if length (rest_of e) < length rest
               then prepend rep (sub_at r f s (pos_of e) (prev_of e) (rest_of e))
               else (case rest of
                       [] \<Rightarrow> Inr rep
                     | x # xs \<Rightarrow> prepend (rep @ [x]) (sub_at r f s (Suc i) (Some x) xs))))"
  by pat_completeness auto
termination
  by (relation "measure (\<lambda>(r, f, s, i, p, rest). length rest)") auto

declare sub_at.simps [simp del]

definition re_sub :: "regex \<Rightarrow> (ustr \<Rightarrow> rmatch \<Rightarrow> error + ustr) \<Rightarrow> ustr \<Rightarrow> error + ustr" where
  "re_sub r f s = sub_at r f s 0 None s"

definition const_repl :: "ustr \<Rightarrow> ustr \<Rightarrow> rmatch \<Rightarrow> error + ustr" where
  "const_repl t s m = Inr t"

section \<open>Built-in functions of Python used by the program\<close>

text \<open>\<^verbatim>\<open>str.strip()\<close> removes the white space at both ends.\<close>

definition strip :: "ustr \<Rightarrow> ustr" where
  "strip s = rev (dropWhile is_space (rev (dropWhile is_space s)))"

text \<open>
  \<^verbatim>\<open>str.splitlines()\<close>: a line ends at each line boundary (\<^verbatim>\<open>\r\n\<close> counts once), and a
  last line with no boundary after it is kept when it is not empty.
\<close>

definition is_linebreak :: "nat \<Rightarrow> bool" where
  "is_linebreak c = in_table c [(10, 13), (28, 30), (133, 133), (8232, 8233)]"

fun splitlines_from :: "ustr \<Rightarrow> ustr \<Rightarrow> ustr list" where
  "splitlines_from cur [] = (if cur = [] then [] else [cur])"
| "splitlines_from cur [c] =
     (if is_linebreak c then [cur] else [cur @ [c]])"
| "splitlines_from cur (c # d # cs) =
     (if c = 13 \<and> d = 10 then cur # splitlines_from [] cs
      else if is_linebreak c then cur # splitlines_from [] (d # cs)
      else splitlines_from (cur @ [c]) (d # cs))"

definition splitlines :: "ustr \<Rightarrow> ustr list" where
  "splitlines s = splitlines_from [] s"

text \<open>\<^verbatim>\<open>pat in x\<close> for strings: \<open>pat\<close> occurs in \<open>x\<close> as a contiguous piece.\<close>

fun is_prefix :: "ustr \<Rightarrow> ustr \<Rightarrow> bool" where
  "is_prefix [] s = True"
| "is_prefix (a # p) [] = False"
| "is_prefix (a # p) (b # s) = (a = b \<and> is_prefix p s)"

fun contains :: "ustr \<Rightarrow> ustr \<Rightarrow> bool" where
  "contains p [] = (p = [])"
| "contains p (a # s) = (is_prefix p (a # s) \<or> contains p s)"

text \<open>
  \<^verbatim>\<open>int(s)\<close> on the text of the group \<^verbatim>\<open>(-?\d+)\<close>: an optional minus sign and decimal
  digits of any script. A digit's value is its offset in its block of ten. CPython
  refuses more than 4300 digits with ValueError.
\<close>

fun digit_val_in :: "nat \<Rightarrow> (nat \<times> nat) list \<Rightarrow> nat" where
  "digit_val_in c [] = 0"
| "digit_val_in c ((lo, hi) # rs) =
     (if lo \<le> c \<and> c \<le> hi then (c - lo) mod 10 else digit_val_in c rs)"

definition digit_val :: "nat \<Rightarrow> nat" where
  "digit_val c = digit_val_in c digit_ranges"

definition digits_val :: "ustr \<Rightarrow> int" where
  "digits_val ds = foldl (\<lambda>a d. 10 * a + int (digit_val d)) 0 ds"

definition py_int :: "ustr \<Rightarrow> error + int" where
  "py_int s =
     (let neg = (s \<noteq> [] \<and> hd s = 45);
          ds = (if neg then tl s else s)
      in if ds = [] \<or> \<not> list_all is_digit ds then Inl ValueError
         else if 4300 < length ds then Inl ValueError
         else Inr (if neg then - digits_val ds else digits_val ds))"

text \<open>
  \<^verbatim>\<open>chr(i)\<close>: CPython converts the argument to a C int first and raises OverflowError
  when it does not fit in 32 bits; a value that fits and is no code point raises
  ValueError.
\<close>

definition py_chr :: "int \<Rightarrow> error + nat" where
  "py_chr i =
     (if i < - 2147483648 \<or> 2147483647 < i then Inl OverflowError
      else if i < 0 \<or> 1114111 < i then Inl ValueError
      else Inr (nat i))"

text \<open>
  \<^verbatim>\<open>bytes.fromhex(s)\<close> on the text of the group \<^verbatim>\<open>([0-9a-fA-F]{2})\<close>: pairs of ASCII
  hexadecimal digits, ValueError on anything else.
\<close>

definition hexval :: "nat \<Rightarrow> nat option" where
  "hexval c =
     (if 48 \<le> c \<and> c \<le> 57 then Some (c - 48)
      else if 97 \<le> c \<and> c \<le> 102 then Some (c - 87)
      else if 65 \<le> c \<and> c \<le> 70 then Some (c - 55)
      else None)"

fun fromhex :: "ustr \<Rightarrow> error + nat list" where
  "fromhex [] = Inr []"
| "fromhex [a] = Inl ValueError"
| "fromhex (a # b # cs) =
     (case (hexval a, hexval b) of
        (Some x, Some y) \<Rightarrow> (case fromhex cs of Inl e \<Rightarrow> Inl e | Inr bs \<Rightarrow> Inr ((16 * x + y) # bs))
      | _ \<Rightarrow> Inl ValueError)"

text \<open>\<^verbatim>\<open>bytes.decode("latin-1", errors="ignore")\<close>: every byte is the code point of its value.\<close>

definition decode_latin1 :: "string \<Rightarrow> ustr" where
  "decode_latin1 content = map of_char content"


section \<open>The RTF decoder: rtf_to_text\<close>

text \<open>
  \<^verbatim>\<open>uni_sub\<close>, the replacement of \<^verbatim>\<open>\\u(-?\d+)\??\<close>: the only exception caught around
  \<^verbatim>\<open>chr\<close> is ValueError, which gives a space; \<^verbatim>\<open>int\<close> is called outside the
  \<^verbatim>\<open>try\<close>.
\<close>

definition uni_re :: regex where
  "uni_re = seqs [Lit 92, Lit 117, Grp 1 (Seq (Opt (Lit 45)) (Plus Digit)), Opt (Lit 63)]"

definition uni_sub :: "ustr \<Rightarrow> rmatch \<Rightarrow> error + ustr" where
  "uni_sub s m =
     bindE (py_int (group s m 1)) (\<lambda>codepoint.
       case py_chr (if codepoint < 0 then 65536 + codepoint else codepoint) of
         Inl ValueError \<Rightarrow> Inr [32]
       | Inl e \<Rightarrow> Inl e
       | Inr ch \<Rightarrow> Inr [ch])"

text \<open>
  \<^verbatim>\<open>hex_sub\<close>, the replacement of \<^verbatim>\<open>\\'([0-9a-fA-F]{2})\<close>: any exception of
  \<^verbatim>\<open>bytes.fromhex\<close> or of the decoding gives the empty string.
\<close>

definition hex_re :: regex where
  "hex_re = seqs [Lit 92, Lit 39, Grp 1 (Times 2 (Cls [(48, 57), (97, 102), (65, 70)]))]"

definition hex_sub :: "ustr \<Rightarrow> rmatch \<Rightarrow> error + ustr" where
  "hex_sub s m =
     (case fromhex (group s m 1) of Inl e \<Rightarrow> Inr [] | Inr bs \<Rightarrow> Inr bs)"

definition par_re :: regex where
  "par_re = seqs [Lit 92, lit (str ''par''), Opt (Cls [(100, 100)])]"

definition line_re :: regex where
  "line_re = seqs [Lit 92, lit (str ''line'')]"

definition cell_re :: regex where
  "cell_re = seqs [Lit 92, lit (str ''cell'')]"

definition row_re :: regex where
  "row_re = seqs [Lit 92, lit (str ''row'')]"

definition tab_re :: regex where
  "tab_re = seqs [Lit 92, lit (str ''tab'')]"

definition ctrl_re :: regex where
  "ctrl_re = seqs [Lit 92, Plus (Cls [(97, 122), (65, 90)]), Star Digit, Opt (Lit 32)]"

definition blanks :: regex where
  "blanks = Plus (Cls [(32, 32), (9, 9)])"

definition replace_char :: "nat \<Rightarrow> nat \<Rightarrow> ustr \<Rightarrow> ustr" where
  "replace_char a b s = map (\<lambda>c. if c = a then b else c) s"

definition rtf_to_text :: "ustr \<Rightarrow> error + ustr" where
  "rtf_to_text rtf =
     bindE (re_sub uni_re uni_sub rtf) (\<lambda>text.
     bindE (re_sub hex_re hex_sub text) (\<lambda>text.
     bindE (re_sub par_re (const_repl [10]) text) (\<lambda>text.
     bindE (re_sub line_re (const_repl [10]) text) (\<lambda>text.
     bindE (re_sub cell_re (const_repl [10]) text) (\<lambda>text.
     bindE (re_sub row_re (const_repl [10]) text) (\<lambda>text.
     bindE (re_sub tab_re (const_repl [32, 32, 32, 32]) text) (\<lambda>text.
     bindE (re_sub ctrl_re (const_repl [32]) text) (\<lambda>text.
     bindE (Inr (replace_char 125 32 (replace_char 123 32 text))) (\<lambda>text.
     bindE (re_sub blanks (const_repl [32]) text) (\<lambda>text.
     bindE (re_sub (Seq (Lit 10) blanks) (const_repl [10]) text) (\<lambda>text.
     bindE (re_sub (Seq blanks (Lit 10)) (const_repl [10]) text) (\<lambda>text.
     re_sub (Rep 2 None True (Lit 10)) (const_repl [10]) text))))))))))))"

section \<open>Pages: split_pages\<close>

definition footer_re :: regex where
  "footer_re = seqs [lit (str ''Side''), Plus Space, Plus Digit, Plus Space,
                     lit (str ''af''), Plus Space, Plus Digit]"

text \<open>The loop of \<^verbatim>\<open>split_pages\<close>, with its two lists \<open>pages\<close> and \<open>current\<close>.\<close>

fun split_loop :: "ustr list list \<Rightarrow> ustr list \<Rightarrow> ustr list \<Rightarrow> ustr list list" where
  "split_loop pages current [] = (if current \<noteq> [] then pages @ [current] else pages)"
| "split_loop pages current (ln # lns) =
     (if found footer_re ln then split_loop (pages @ [current @ [ln]]) [] lns
      else split_loop pages (current @ [ln]) lns)"

definition split_pages :: "ustr list \<Rightarrow> ustr list list" where
  "split_pages lines = split_loop [] [] lines"

section \<open>Page metadata: find_meta\<close>

definition host_re :: regex where
  "host_re = seqs [lit (str ''HOSTRUTE:''), Star Space, Grp 1 (Plus Digit)]"

definition port_re :: regex where
  "port_re = seqs [lit (str ''L'' @ [198] @ str ''SSEPORT:''), Star Space, Grp 1 (Plus Digit)]"

definition clock :: regex where
  "clock = seqs [Opt (Cls [(48, 50)]), Digit, Lit 58, Times 2 Digit]"

definition start_re :: regex where
  "start_re = seqs [lit (str ''STARTTID:''), Star Space, Grp 1 clock]"

definition slut_re :: regex where
  "slut_re = seqs [lit (str ''SLUTTID:''), Star Space, Grp 1 clock]"

definition afr_re :: regex where
  "afr_re = seqs [lit (str ''AFREGNINGSTID:''), Star Space, Grp 1 (Plus Digit)]"

type_synonym meta = "ustr option \<times> ustr option \<times> ustr option \<times> ustr option \<times> ustr option"

text \<open>\<^verbatim>\<open>m = p.search(ln); x = m.group(1) if m else x\<close>\<close>

definition keep_or_take :: "regex \<Rightarrow> ustr \<Rightarrow> ustr option \<Rightarrow> ustr option" where
  "keep_or_take p ln x = (case re_search p ln of Some m \<Rightarrow> Some (group ln m 1) | None \<Rightarrow> x)"

fun meta_step :: "meta \<Rightarrow> ustr \<Rightarrow> meta" where
  "meta_step (rutenummer, portnummer, starttid, sluttid, afregningstid) ln =
     (keep_or_take host_re ln rutenummer,
      keep_or_take port_re ln portnummer,
      keep_or_take start_re ln starttid,
      keep_or_take slut_re ln sluttid,
      keep_or_take afr_re ln afregningstid)"

definition find_meta :: "ustr list \<Rightarrow> meta" where
  "find_meta page_lines = foldl meta_step (None, None, None, None, None) page_lines"

section \<open>Addresses: find_street_and_post\<close>

definition HEADER_FOOTER_PAT :: regex where
  "HEADER_FOOTER_PAT = Grp 1 (alts [
     liti (str ''Hasselager FVT''), liti (str ''TUR START''), liti (str ''TRIP''),
     liti (str ''PAUSE''), liti (str ''L'' @ [198] @ str ''SSEPORT''), liti (str ''HOSTRUTE''),
     liti (str ''VOGNNUMMER''), liti ([197] @ str ''BNE - LUKKE''), liti (str ''STARTTID''),
     liti (str ''HJEMKOMSTTID''), liti (str ''SLUTTID''), liti (str ''ROUTEDATE''),
     liti (str ''Udskrevet:''),
     seqs [liti (str ''Side''), Plus Space, Plus Digit, Plus Space, liti (str ''af''),
           Plus Space, Plus Digit]])"

definition bare4_re :: regex where
  "bare4_re = seqs [WordB, Times 4 Digit, WordB]"

definition post_re :: regex where
  "post_re = seqs [Grp 1 (Times 4 Digit), Plus Space, Grp 2 (Plus Dot), Eol]"

definition street_post_re :: regex where
  "street_post_re = seqs [Grp 1 (LazyPlus Dot), Plus Space, Grp 2 (Times 4 Digit), Plus Space,
                          Grp 3 (Plus Dot), Eol]"

text \<open>The window: \<^verbatim>\<open>page_lines[start_idx + k]\<close> for \<open>k\<close> from 1 to the depth, while in range.\<close>

definition lookahead :: "ustr list \<Rightarrow> nat \<Rightarrow> nat \<Rightarrow> ustr list" where
  "lookahead page_lines start_idx lookahead_depth =
     map (\<lambda>k. page_lines ! (start_idx + k))
       (filter (\<lambda>k. start_idx + k < length page_lines) [1..<Suc lookahead_depth])"

text \<open>The three loops over the window; each stops at its \<^verbatim>\<open>break\<close>.\<close>

fun street_scan :: "ustr list \<Rightarrow> ustr option" where
  "street_scan [] = None"
| "street_scan (s # ss) =
     (if s = [] \<or> found HEADER_FOOTER_PAT s then street_scan ss
      else if found bare4_re s then street_scan ss
      else Some (strip s))"

fun post_scan :: "ustr list \<Rightarrow> ustr option \<times> ustr option" where
  "post_scan [] = (None, None)"
| "post_scan (s # ss) =
     (case re_search post_re s of
        Some pm \<Rightarrow> (Some (group s pm 1), Some (strip (group s pm 2)))
      | None \<Rightarrow> post_scan ss)"

fun fallback_scan :: "ustr list \<Rightarrow> (ustr \<times> ustr \<times> ustr) option" where
  "fallback_scan [] = None"
| "fallback_scan (s # ss) =
     (case re_search street_post_re s of
        Some pm2 \<Rightarrow>
          (if \<not> found HEADER_FOOTER_PAT s
           then Some (strip (group s pm2 1), group s pm2 2, strip (group s pm2 3))
           else fallback_scan ss)
      | None \<Rightarrow> fallback_scan ss)"

definition find_street_and_post ::
  "ustr list \<Rightarrow> nat \<Rightarrow> nat \<Rightarrow> ustr option \<times> ustr option \<times> ustr option" where
  "find_street_and_post page_lines start_idx lookahead_depth =
     (let window = lookahead page_lines start_idx lookahead_depth;
          street = street_scan window;
          (postnr, by) = post_scan window
      in if street = None then
           (case fallback_scan window of
              Some (street2, postnr2, by2) \<Rightarrow> (Some street2, Some postnr2, Some by2)
            | None \<Rightarrow> (street, postnr, by))
         else (street, postnr, by))"

section \<open>Records: parse_page\<close>

definition hhmm :: regex where
  "hhmm = seqs [Rep 1 (Some 2) True Digit, Lit 58, Times 2 Digit]"

text \<open>The groups id, name, ank and afg are the groups 1 to 4.\<close>

definition stop_line_re :: regex where
  "stop_line_re = seqs [Bol, Grp 1 (Times 5 Digit), Plus Space, Grp 2 (LazyPlus Dot), Plus Space,
     hhmm, Star Space, Lit 45, Star Space, hhmm,
     Rep 1 (Some 8) True (Seq (Plus Space) (Plus Digit)), Plus Space,
     Grp 3 hhmm, Plus Space, Grp 4 hhmm, WordB]"

definition suffix_re :: regex where
  "suffix_re = seqs [Plus Space, Cls [(65, 65)], Star Space, Star Digit, Eol]"

definition marker :: ustr where
  "marker = str ''Hasselager''"

text \<open>\<^verbatim>\<open>x and 'Hasselager' in x\<close>, for \<open>x\<close> a string or None.\<close>

definition has_marker :: "ustr option \<Rightarrow> bool" where
  "has_marker x = (case x of None \<Rightarrow> False | Some t \<Rightarrow> t \<noteq> [] \<and> contains marker t)"

text \<open>
  The value \<^verbatim>\<open>round(float(m) / 60.0, 2)\<close> is a binary floating point number; the model
  keeps it as the expression over the text \<open>m\<close> of the minutes and does not compute it.
  \<^verbatim>\<open>float(m)\<close> accepts every non-empty text of decimal digits; any exception is caught
  and gives None.
\<close>

datatype pyfloat = Round2_Div60 ustr

definition py_float :: "ustr \<Rightarrow> error + ustr" where
  "py_float m = (if m \<noteq> [] \<and> list_all is_digit m then Inr m else Inl ValueError)"

definition settlement_hours :: "ustr option \<Rightarrow> pyfloat option" where
  "settlement_hours afregningstid =
     (case afregningstid of
        None \<Rightarrow> None
      | Some m \<Rightarrow> if m = [] then None
                  else (case py_float m of Inl e \<Rightarrow> None | Inr x \<Rightarrow> Some (Round2_Div60 x)))"

record row =
  Butiksnavn :: ustr
  Adresse :: "ustr option"
  Postnr :: "ustr option"
  By :: "ustr option"
  Ankomst :: ustr
  Rutenummer :: "ustr option"
  Portnummer :: "ustr option"
  Starttid :: "ustr option"
  Sluttid :: "ustr option"
  Afregningstid_timer :: "pyfloat option"

definition normalize_name :: "ustr \<Rightarrow> ustr" where
  "normalize_name name_raw =
     strip (case re_sub suffix_re (const_repl []) name_raw of Inl e \<Rightarrow> [] | Inr t \<Rightarrow> t)"

text \<open>One turn of the loop of \<^verbatim>\<open>parse_page\<close>: the record of line \<open>i\<close>, if it gives one.\<close>

definition parse_line :: "ustr list \<Rightarrow> meta \<Rightarrow> nat \<Rightarrow> row option" where
  "parse_line page_lines md i =
     (case re_match stop_line_re (page_lines ! i) of
        None \<Rightarrow> None
      | Some sm \<Rightarrow>
          (let name_raw = strip (group (page_lines ! i) sm 2);
               ank = group (page_lines ! i) sm 3;
               (street, postnr, by) = find_street_and_post page_lines i 12
           in if has_marker (Some name_raw) \<or> has_marker street \<or> has_marker by then None
              else (case md of (rutenummer, portnummer, starttid, sluttid, afregningstid) \<Rightarrow>
                Some \<lparr>Butiksnavn = normalize_name name_raw, Adresse = street, Postnr = postnr,
                      By = by, Ankomst = ank, Rutenummer = rutenummer,
                      Portnummer = portnummer, Starttid = starttid, Sluttid = sluttid,
                      Afregningstid_timer = settlement_hours afregningstid\<rparr>)))"

fun parse_loop :: "ustr list \<Rightarrow> meta \<Rightarrow> row list \<Rightarrow> nat list \<Rightarrow> row list" where
  "parse_loop page_lines md rows [] = rows"
| "parse_loop page_lines md rows (i # is) =
     (case parse_line page_lines md i of
        None \<Rightarrow> parse_loop page_lines md rows is
      | Some r \<Rightarrow> parse_loop page_lines md (rows @ [r]) is)"

definition parse_page :: "ustr list \<Rightarrow> row list" where
  "parse_page page_lines =
     parse_loop page_lines (find_meta page_lines) [] [0..<length page_lines]"

section \<open>The entry point: process_rtf_file\<close>

definition decoded_lines :: "ustr \<Rightarrow> ustr list" where
  "decoded_lines text = map strip (filter (\<lambda>ln. strip ln \<noteq> []) (splitlines text))"

fun extend_all :: "row list \<Rightarrow> ustr list list \<Rightarrow> row list" where
  "extend_all all_rows [] = all_rows"
| "extend_all all_rows (page # pages) = extend_all (all_rows @ parse_page page) pages"

text \<open>
  The last step of the entry point, \<^verbatim>\<open>df = pd.DataFrame(all_rows)\<close>, calls the
  constructor of a library. It is the parameter \<open>DataFrame\<close> of the model, of which
  nothing is assumed: it returns a data frame or raises, and what it raises leaves the
  entry point.
\<close>

definition process_rtf_file :: "(row list \<Rightarrow> error + 'df) \<Rightarrow> string \<Rightarrow> string
    \<Rightarrow> error + ('df \<times> nat)" where
  "process_rtf_file DataFrame file_content filename =
     bindE (rtf_to_text (decode_latin1 file_content)) (\<lambda>text.
       let lines = decoded_lines text;
           pages = split_pages lines;
           all_rows = extend_all [] pages
       in bindE (DataFrame all_rows) (\<lambda>df. Inr (df, length all_rows)))"


section \<open>Notions of the specification\<close>

text \<open>
  The last line of a page on which a label pattern is found, and the value it gives:
  the specification's "last successfully matched occurrence".
\<close>

definition last_occurrence :: "regex \<Rightarrow> ustr list \<Rightarrow> ustr option" where
  "last_occurrence p page_lines =
     (case filter (found p) (rev page_lines) of
        [] \<Rightarrow> None
      | ln # lns \<Rightarrow> map_option (\<lambda>m. group ln m 1) (re_search p ln))"

text \<open>
  Records that share a route number are contiguous: once adjacent repetitions are
  merged, no route number occurs twice.
\<close>

definition contiguous_routes :: "row list \<Rightarrow> bool" where
  "contiguous_routes rows = distinct (remdups_adj (map Rutenummer rows))"

text \<open>Containment without regard to the case of ASCII letters.\<close>

definition lower :: "nat \<Rightarrow> nat" where
  "lower c = (if 65 \<le> c \<and> c \<le> 90 then c + 32 else c)"

definition contains_ci :: "ustr \<Rightarrow> ustr \<Rightarrow> bool" where
  "contains_ci p s = contains (map lower p) (map lower s)"

text \<open>
  A document of three pages, as plain text lines: the first and the third page carry
  the route number 1, the second the route number 2. Each page has one stop line and
  ends with its footer.
\<close>

definition c2_page1 :: "ustr list" where
  "c2_page1 = [str ''HOSTRUTE: 1'', str ''10001 Netto 7:00-8:00 1 9:00 9:10'', str ''Side 1 af 3'']"

definition c2_page2 :: "ustr list" where
  "c2_page2 = [str ''HOSTRUTE: 2'', str ''10002 Fakta 7:00-8:00 1 9:20 9:30'', str ''Side 2 af 3'']"

definition c2_page3 :: "ustr list" where
  "c2_page3 = [str ''HOSTRUTE: 1'', str ''10003 Irma 7:00-8:00 1 9:40 9:50'', str ''Side 3 af 3'']"

definition c2_doc :: string where
  "c2_doc = ''HOSTRUTE: 1'' @ [CHR 0x0A] @ ''10001 Netto 7:00-8:00 1 9:00 9:10'' @ [CHR 0x0A]
     @ ''Side 1 af 3'' @ [CHR 0x0A]
     @ ''HOSTRUTE: 2'' @ [CHR 0x0A] @ ''10002 Fakta 7:00-8:00 1 9:20 9:30'' @ [CHR 0x0A]
     @ ''Side 2 af 3'' @ [CHR 0x0A]
     @ ''HOSTRUTE: 1'' @ [CHR 0x0A] @ ''10003 Irma 7:00-8:00 1 9:40 9:50'' @ [CHR 0x0A]
     @ ''Side 3 af 3''"

definition c2_row :: "string \<Rightarrow> string \<Rightarrow> string \<Rightarrow> row" where
  "c2_row name ank route =
     \<lparr>Butiksnavn = str name, Adresse = None, Postnr = None, By = None, Ankomst = str ank,
      Rutenummer = Some (str route), Portnummer = None, Starttid = None, Sluttid = None,
      Afregningstid_timer = None\<rparr>"

definition c2_rows :: "row list" where
  "c2_rows = [c2_row ''Netto'' ''9:00'' ''1'', c2_row ''Fakta'' ''9:20'' ''2'',
              c2_row ''Irma'' ''9:40'' ''1'']"




text \<open>A document that is one unicode escape whose number does not fit a C int.\<close>

definition c1_doc :: string where
  "c1_doc = [CHR 0x5C] @ ''u2147483648''"





text \<open>
  The route suffix that \<^verbatim>\<open>parse_page\<close> strips, in words: white space, the capital letter
  A, optional white space, optional digits, up to the end of the name or to a newline
  that ends it. \<open>cut_suffix\<close> keeps the name up to the first position from which the rest
  has that shape.
\<close>

definition suffix_shape :: "ustr \<Rightarrow> bool" where
  "suffix_shape t =
     (\<exists>ws sp ds tl. t = ws @ [65] @ sp @ ds @ tl \<and> ws \<noteq> [] \<and> (\<forall>c \<in> set ws. is_space c)
        \<and> (\<forall>c \<in> set sp. is_space c) \<and> (\<forall>c \<in> set ds. is_digit c) \<and> at_end tl)"

fun cut_suffix :: "ustr \<Rightarrow> ustr" where
  "cut_suffix [] = []"
| "cut_suffix (x # xs) = (if suffix_shape (x # xs) then [] else x # cut_suffix xs)"

text \<open>
  Pages of one stop each, without metadata: a name with the suffix " A1", a name with the
  suffix " B2", a stop in the city "Hasselager" and a stop in the city "HASSELAGER".
\<close>

definition c6_page_a :: "ustr list" where
  "c6_page_a = [str ''10001 Netto A1 7:00-8:00 1 9:00 9:10'']"

definition c6_page_b :: "ustr list" where
  "c6_page_b = [str ''10001 Netto B2 7:00-8:00 1 9:00 9:10'']"

definition c5_page_depot :: "ustr list" where
  "c5_page_depot = [str ''10001 Netto 7:00-8:00 1 9:00 9:10'', str ''Vej 1'', str ''8361 Hasselager'']"

definition c5_page_upper :: "ustr list" where
  "c5_page_upper = [str ''10001 Netto 7:00-8:00 1 9:00 9:10'', str ''Vej 1'', str ''8361 HASSELAGER'']"

definition stop_row :: "string \<Rightarrow> ustr option \<Rightarrow> ustr option \<Rightarrow> ustr option \<Rightarrow> string \<Rightarrow> row" where
  "stop_row name street postnr by ank =
     \<lparr>Butiksnavn = str name, Adresse = street, Postnr = postnr, By = by, Ankomst = str ank,
      Rutenummer = None, Portnummer = None, Starttid = None, Sluttid = None,
      Afregningstid_timer = None\<rparr>"

section \<open>Evaluation on concrete texts\<close>

lemma bindE_weak_cong: "m = m' \<Longrightarrow> bindE m f = bindE m' f"
  by simp

lemma bindE_Inr: "bindE (Inr v) f = f v"
  by (simp add: bindE_def)

lemma bindE_Inl: "bindE (Inl e) f = Inl e"
  by (simp add: bindE_def)

text \<open>
  The classes on the code points below the second range of their tables, where the
  tables need not be searched.
\<close>

lemma is_digit_low: "c < 1632 \<Longrightarrow> is_digit c = (48 \<le> c \<and> c \<le> 57)"
  by (auto simp add: is_digit_def digit_ranges_def)

lemma is_space_low:
  "c < 5760 \<Longrightarrow> is_space c =
     ((9 \<le> c \<and> c \<le> 13) \<or> (28 \<le> c \<and> c \<le> 32) \<or> c = 133 \<or> c = 160)"
  by (auto simp add: is_space_def space_ranges_def)

lemma is_word_low:
  "c < 170 \<Longrightarrow> is_word c =
     ((48 \<le> c \<and> c \<le> 57) \<or> (65 \<le> c \<and> c \<le> 90) \<or> c = 95 \<or> (97 \<le> c \<and> c \<le> 122))"
  by (auto simp add: is_word_def word_ranges_def)

lemma digit_val_low: "48 \<le> c \<Longrightarrow> c \<le> 57 \<Longrightarrow> digit_val c = c - 48"
  by (simp add: digit_val_def digit_ranges_def)

text \<open>
  A pattern is unfolded where the matcher is applied to it, not before: the searches
  then carry the name of the pattern from position to position.
\<close>

lemmas rx_defs =
  arg_cong [where f = rx, OF uni_re_def] arg_cong [where f = rx, OF hex_re_def] arg_cong
  [where f = rx, OF par_re_def] arg_cong [where f = rx, OF line_re_def] arg_cong [where f
  = rx, OF cell_re_def] arg_cong [where f = rx, OF row_re_def] arg_cong [where f = rx, OF
  tab_re_def] arg_cong [where f = rx, OF ctrl_re_def] arg_cong [where f = rx, OF
  blanks_def] arg_cong [where f = rx, OF footer_re_def] arg_cong [where f = rx, OF
  host_re_def] arg_cong [where f = rx, OF port_re_def] arg_cong [where f = rx, OF
  start_re_def] arg_cong [where f = rx, OF slut_re_def] arg_cong [where f = rx, OF
  afr_re_def] arg_cong [where f = rx, OF HEADER_FOOTER_PAT_def] arg_cong [where f = rx, OF
  bare4_re_def] arg_cong [where f = rx, OF post_re_def] arg_cong [where f = rx, OF
  street_post_re_def] arg_cong [where f = rx, OF stop_line_re_def] arg_cong [where f = rx,
  OF suffix_re_def]

lemmas eval_defs = str_def is_digit_low is_space_low is_word_low at_word_boundary_def at_end_def re_match_def re_search_def
  found_def group_def lit_def liti_def case_variants_def hhmm_def clock_def
  is_linebreak_def splitlines_def strip_def digit_val_low digits_val_def py_int_def
  py_chr_def hexval_def decode_latin1_def uni_sub_def hex_sub_def
  replace_char_def rtf_to_text_def split_pages_def keep_or_take_def find_meta_def
  lookahead_def find_street_and_post_def marker_def has_marker_def py_float_def
  settlement_hours_def normalize_name_def parse_line_def parse_page_def decoded_lines_def
  process_rtf_file_def re_sub_def const_repl_def prepend_def bindE_Inr bindE_Inl
  sub_at.simps pos_of_def prev_of_def rest_of_def caps_of_def upt_rec Let_def rx_defs
  rx.simps

section \<open>The page splitter\<close>

lemma split_loop_concat: "concat (split_loop pages cur lns) = concat pages @ cur @ lns"
  by (induction lns arbitrary: pages cur) auto

text \<open>
  Claim C9. The pages returned by \<^verbatim>\<open>split_pages\<close>, concatenated in order, are exactly
  the input lines: no line is lost, duplicated or moved.
\<close>

theorem split_pages_partition: "concat (split_pages lines) = lines"
  by (simp add: split_pages_def split_loop_concat)

theorem split_pages_partition_witness:
  "concat (split_pages [str ''L1'', str ''Side 1 af 2'', str ''L3''])
   = [str ''L1'', str ''Side 1 af 2'', str ''L3'']"
  using split_pages_partition [of "[str ''L1'', str ''Side 1 af 2'', str ''L3'']"] by simp

lemma split_loop_pages: "split_loop pages cur lns = pages @ split_loop [] cur lns"
proof (induction lns arbitrary: pages cur)
  case Nil
  show ?case by simp
next
  case (Cons ln lns)
  show ?case
  proof (cases "found footer_re ln")
    case True
    have "split_loop (pages @ [cur @ [ln]]) [] lns = (pages @ [cur @ [ln]]) @ split_loop [] [] lns"
      by (rule Cons.IH)
    moreover have "split_loop [cur @ [ln]] [] lns = [cur @ [ln]] @ split_loop [] [] lns"
      by (rule Cons.IH)
    ultimately show ?thesis using True by simp
  next
    case False
    then show ?thesis using Cons.IH [of pages "cur @ [ln]"] by simp
  qed
qed

lemma split_loop_no_footer:
  "\<forall>l \<in> set xs. \<not> found footer_re l \<Longrightarrow>
   split_loop [] cur xs = (if cur @ xs = [] then [] else [cur @ xs])"
  by (induction xs arbitrary: cur) auto

lemma split_loop_footer:
  "\<forall>l \<in> set xs. \<not> found footer_re l \<Longrightarrow> found footer_re f \<Longrightarrow>
   split_loop [] cur (xs @ f # ys) = (cur @ xs @ [f]) # split_loop [] [] ys"
proof (induction xs arbitrary: cur)
  case Nil
  then show ?case using split_loop_pages [of "[cur @ [f]]" "[]" ys] by simp
next
  case (Cons x xs)
  then show ?case by simp
qed

lemma footer_example: "found footer_re (str ''Side 1 af 2'')"
  by (simp add: eval_defs)

text \<open>
  Claim C7, as amended. A line in which the footer pattern (Side, digits, af, digits,
  separated by white space, matched with the case of the letters as written) is found
  closes the current page, which ends with that line; lines with no footer after the
  last footer line form a final page; and for lines L1 and L2 that are no footers the
  lines L1, L2, "Side 1 af 2", L3 give the two pages of the specification's example.
\<close>

theorem split_pages_footer:
  "((\<forall>l \<in> set xs. \<not> found footer_re l) \<and> found footer_re f \<longrightarrow>
      split_pages (xs @ f # ys) = (xs @ [f]) # split_pages ys)
   \<and> ((\<forall>l \<in> set xs. \<not> found footer_re l) \<and> xs \<noteq> [] \<longrightarrow> split_pages xs = [xs])
   \<and> (\<not> found footer_re L1 \<and> \<not> found footer_re L2 \<longrightarrow>
      split_pages [L1, L2, str ''Side 1 af 2'', L3] = [[L1, L2, str ''Side 1 af 2''], [L3]])"
proof (intro conjI impI)
  assume "(\<forall>l \<in> set xs. \<not> found footer_re l) \<and> found footer_re f"
  then show "split_pages (xs @ f # ys) = (xs @ [f]) # split_pages ys"
    using split_loop_footer [of xs f "[]" ys] by (simp add: split_pages_def)
next
  assume "(\<forall>l \<in> set xs. \<not> found footer_re l) \<and> xs \<noteq> []"
  then show "split_pages xs = [xs]"
    using split_loop_no_footer [of xs "[]"] by (simp add: split_pages_def)
next
  assume a: "\<not> found footer_re L1 \<and> \<not> found footer_re L2"
  have "split_loop [] [] ([L1, L2] @ str ''Side 1 af 2'' # [L3])
        = ([] @ [L1, L2] @ [str ''Side 1 af 2'']) # split_loop [] [] [L3]"
    using a footer_example by (intro split_loop_footer) auto
  moreover have "split_loop [] [] [L3] = [[L3]]"
    by simp
  ultimately show "split_pages [L1, L2, str ''Side 1 af 2'', L3] = [[L1, L2, str ''Side 1 af 2''], [L3]]"
    by (simp add: split_pages_def)
qed

theorem split_pages_footer_witness:
  "\<not> found footer_re (str ''L1'') \<and> \<not> found footer_re (str ''L2'')
   \<and> found footer_re (str ''Side 1 af 2'')
   \<and> split_pages [str ''L1'', str ''L2'', str ''Side 1 af 2'', str ''L3'']
       = [[str ''L1'', str ''L2'', str ''Side 1 af 2''], [str ''L3'']]
   \<and> split_pages [str ''L1'', str ''L2''] = [[str ''L1'', str ''L2'']]"
proof -
  have h1: "\<not> found footer_re (str ''L1'')" by (simp add: eval_defs)
  have h2: "\<not> found footer_re (str ''L2'')" by (simp add: eval_defs)
  have h3: "found footer_re (str ''Side 1 af 2'')" by (simp add: eval_defs)
  have h4: "\<forall>l \<in> set [str ''L1'', str ''L2'']. \<not> found footer_re l" using h1 h2 by simp
  show ?thesis
    using h1 h2 h3 h4
      split_pages_footer [of "[str ''L1'', str ''L2'']" "str ''Side 1 af 2''" "[str ''L3'']" "str ''L1''" "str ''L2''" "str ''L3''"]
    by blast
qed

text \<open>
  Claim C7 as stated fails: the line "side 1 AF 2" matches the footer alternative of the
  header and footer pattern, which is compiled with \<^verbatim>\<open>re.IGNORECASE\<close>, and yet does not
  close a page, since \<^verbatim>\<open>split_pages\<close> searches without that flag.
\<close>

theorem split_pages_case_counterexample:
  "found HEADER_FOOTER_PAT (str ''side 1 AF 2'')
   \<and> split_pages [str ''L1'', str ''side 1 AF 2'', str ''L3'']
       = [[str ''L1'', str ''side 1 AF 2'', str ''L3'']]"
  by (simp add: eval_defs)

section \<open>The metadata extractor\<close>

lemma keep_or_take_found:
  "keep_or_take p ln x =
     (if found p ln then map_option (\<lambda>m. group ln m 1) (re_search p ln) else x)"
  by (cases "re_search p ln") (simp_all add: keep_or_take_def found_def)

lemma last_occurrence_snoc:
  "last_occurrence p (page_lines @ [ln]) = keep_or_take p ln (last_occurrence p page_lines)"
  by (simp add: last_occurrence_def keep_or_take_found)

lemma find_meta_snoc: "find_meta (page_lines @ [ln]) = meta_step (find_meta page_lines) ln"
  by (simp add: find_meta_def)

lemma find_meta_last:
  "find_meta page_lines =
     (last_occurrence host_re page_lines, last_occurrence port_re page_lines,
      last_occurrence start_re page_lines, last_occurrence slut_re page_lines,
      last_occurrence afr_re page_lines)"
proof (induction page_lines rule: rev_induct)
  case Nil
  show ?case by (simp add: find_meta_def last_occurrence_def)
next
  case (snoc ln page_lines)
  show ?case
    unfolding find_meta_snoc snoc.IH by (simp add: last_occurrence_snoc)
qed

text \<open>
  Claim C4. \<^verbatim>\<open>find_meta\<close> is a fold of \<open>meta_step\<close> over the lines of the page, from five
  absent fields. For each of the five label patterns a line on which the pattern is
  found overwrites the field with the value of that line, and a line on which it is not
  found leaves the field as it was; so each field is the value of the last line of the
  page on which its pattern is found, and is absent when there is no such line.
\<close>

theorem find_meta_fold:
  "find_meta (page_lines @ [ln]) = meta_step (find_meta page_lines) ln
   \<and> (found p ln \<longrightarrow> keep_or_take p ln x = map_option (\<lambda>m. group ln m 1) (re_search p ln)
         \<and> keep_or_take p ln x \<noteq> None)
   \<and> (\<not> found p ln \<longrightarrow> keep_or_take p ln x = x)
   \<and> find_meta page_lines =
       (last_occurrence host_re page_lines, last_occurrence port_re page_lines,
        last_occurrence start_re page_lines, last_occurrence slut_re page_lines,
        last_occurrence afr_re page_lines)
   \<and> ((\<forall>l \<in> set page_lines. \<not> found p l) \<longrightarrow> last_occurrence p page_lines = None)"
proof (intro conjI impI)
  show "find_meta (page_lines @ [ln]) = meta_step (find_meta page_lines) ln"
    by (rule find_meta_snoc)
  show "find_meta page_lines =
       (last_occurrence host_re page_lines, last_occurrence port_re page_lines,
        last_occurrence start_re page_lines, last_occurrence slut_re page_lines,
        last_occurrence afr_re page_lines)"
    by (rule find_meta_last)
next
  assume "found p ln"
  then show "keep_or_take p ln x = map_option (\<lambda>m. group ln m 1) (re_search p ln)"
    by (simp add: keep_or_take_found)
next
  assume "found p ln"
  then show "keep_or_take p ln x \<noteq> None"
    by (auto simp add: keep_or_take_def found_def)
next
  assume "\<not> found p ln"
  then show "keep_or_take p ln x = x"
    by (simp add: keep_or_take_found)
next
  assume "\<forall>l \<in> set page_lines. \<not> found p l"
  then have "filter (found p) (rev page_lines) = []"
    by (simp add: filter_empty_conv)
  then show "last_occurrence p page_lines = None"
    by (simp add: last_occurrence_def)
qed

theorem find_meta_fold_witness:
  "found host_re (str ''HOSTRUTE: 17'') \<and> \<not> found host_re (str ''TUR START'')
   \<and> keep_or_take host_re (str ''HOSTRUTE: 17'') (Some (str ''5'')) = Some (str ''17'')
   \<and> keep_or_take host_re (str ''TUR START'') (Some (str ''17'')) = Some (str ''17'')
   \<and> find_meta [str ''HOSTRUTE: 5'', str ''HOSTRUTE: 17'', str ''TUR START'']
       = (Some (str ''17''), None, None, None, None)
   \<and> last_occurrence port_re [str ''TUR START''] = None"
proof -
  have h1: "found host_re (str ''HOSTRUTE: 17'')" by (simp add: eval_defs)
  have h2: "\<not> found host_re (str ''TUR START'')" by (simp add: eval_defs)
  have h3: "\<forall>l \<in> set [str ''TUR START'']. \<not> found port_re l" by (simp add: eval_defs)
  have v1: "map_option (\<lambda>m. group (str ''HOSTRUTE: 17'') m 1) (re_search host_re (str ''HOSTRUTE: 17''))
            = Some (str ''17'')"
    by (simp add: eval_defs)
  have v2: "find_meta [str ''HOSTRUTE: 5'', str ''HOSTRUTE: 17'', str ''TUR START'']
       = (Some (str ''17''), None, None, None, None)"
    by (simp add: eval_defs)
  show ?thesis
    using h1 h2 h3 v1 v2
      find_meta_fold [of "[str ''HOSTRUTE: 5'', str ''HOSTRUTE: 17'']" "str ''TUR START''" host_re
        "Some (str ''17'')"]
      find_meta_fold [of "[str ''TUR START'']" "str ''HOSTRUTE: 17''" host_re "Some (str ''5'')"]
      find_meta_fold [of "[str ''TUR START'']" "str ''HOSTRUTE: 17''" port_re "Some (str ''5'')"]
    by simp
qed

section \<open>The order of the records\<close>

lemma parse_loop_map_filter:
  "parse_loop page_lines md rows is = rows @ List.map_filter (parse_line page_lines md) is"
  by (induction "is" arbitrary: rows) (auto simp add: List.map_filter_simps split: option.splits)

lemma parse_page_map_filter:
  "parse_page page_lines =
     List.map_filter (parse_line page_lines (find_meta page_lines)) [0..<length page_lines]"
  by (simp add: parse_page_def parse_loop_map_filter)

lemma extend_all_concat: "extend_all all_rows pages = all_rows @ concat (map parse_page pages)"
  by (induction pages arbitrary: all_rows) auto

lemma parse_line_route: "parse_line page_lines md i = Some r \<Longrightarrow> Rutenummer r = fst md"
  by (auto simp add: parse_line_def Let_def split: option.splits prod.splits if_splits)

lemma parse_page_route:
  "r \<in> set (parse_page page_lines) \<Longrightarrow> Rutenummer r = fst (find_meta page_lines)"
  by (auto simp add: parse_page_map_filter List.map_filter_def dest: parse_line_route)

lemma same_route_contiguous:
  assumes "\<forall>r \<in> set rows. Rutenummer r = x"
  shows "contiguous_routes rows"
proof -
  have "map Rutenummer rows = replicate (length rows) x"
    using assms by (induction rows) auto
  then show ?thesis
    by (simp add: contiguous_routes_def remdups_adj_replicate)
qed

lemma process_rtf_file_rows:
  assumes "process_rtf_file DataFrame file_content filename = Inr (df, n)"
  shows "\<exists>text rows. rtf_to_text (decode_latin1 file_content) = Inr text
           \<and> rows = concat (map parse_page (split_pages (decoded_lines text)))
           \<and> DataFrame rows = Inr df \<and> n = length rows"
proof (cases "rtf_to_text (decode_latin1 file_content)")
  case (Inl e)
  then show ?thesis
    using assms by (simp add: process_rtf_file_def bindE_def)
next
  case (Inr decoded)
  show ?thesis
  proof (cases "DataFrame (concat (map parse_page (split_pages (decoded_lines decoded))))")
    case (Inl e)
    then show ?thesis
      using assms Inr by (simp add: process_rtf_file_def bindE_def Let_def extend_all_concat)
  next
    case (Inr frame)
    then show ?thesis
      using assms \<open>rtf_to_text (decode_latin1 file_content) = Inr decoded\<close>
      by (auto simp add: process_rtf_file_def bindE_def Let_def extend_all_concat)
  qed
qed

lemma process_rtf_file_returns:
  assumes "rtf_to_text (decode_latin1 file_content) = Inr text"
    and "DataFrame (concat (map parse_page (split_pages (decoded_lines text)))) = Inr df"
  shows "process_rtf_file DataFrame file_content filename
         = Inr (df, length (concat (map parse_page (split_pages (decoded_lines text)))))"
  using assms by (simp add: process_rtf_file_def bindE_def Let_def extend_all_concat)

lemma process_rtf_file_frame_raises:
  assumes "rtf_to_text (decode_latin1 file_content) = Inr text"
    and "DataFrame (concat (map parse_page (split_pages (decoded_lines text)))) = Inl e"
  shows "process_rtf_file DataFrame file_content filename = Inl e"
  using assms by (simp add: process_rtf_file_def bindE_def Let_def extend_all_concat)

text \<open>
  Claim C2, as amended. When the entry point returns, that is when neither the decoder
  nor the constructor of the data frame raises, the record list of the document is the
  concatenation of the record lists of its pages in page order, the data frame returned
  is the one constructed from this list, and the count returned with it is the length
  of the list; conversely the entry point returns whenever the decoder and the
  constructor do, and what the constructor raises leaves the entry point. The records of
  a page are those of its stop lines in the order of the lines; they all carry the route
  number of the page, so that the records of one page are contiguous. Nothing is said
  of pages that lie apart and carry the same route number.
\<close>

theorem records_in_page_order:
  "(process_rtf_file DataFrame file_content filename = Inr (df, n) \<longrightarrow>
      (\<exists>text rows. rtf_to_text (decode_latin1 file_content) = Inr text
          \<and> rows = concat (map parse_page (split_pages (decoded_lines text)))
          \<and> DataFrame rows = Inr df \<and> n = length rows))
   \<and> (rtf_to_text (decode_latin1 file_content) = Inr decoded \<longrightarrow>
        process_rtf_file DataFrame file_content filename =
          (case DataFrame (concat (map parse_page (split_pages (decoded_lines decoded)))) of
             Inl e \<Rightarrow> Inl e
           | Inr frame \<Rightarrow>
               Inr (frame, length (concat (map parse_page (split_pages (decoded_lines decoded)))))))
   \<and> parse_page page_lines =
       List.map_filter (parse_line page_lines (find_meta page_lines)) [0..<length page_lines]
   \<and> (\<forall>r \<in> set (parse_page page_lines). Rutenummer r = fst (find_meta page_lines))
   \<and> contiguous_routes (parse_page page_lines)"
proof (intro conjI impI ballI)
  assume "process_rtf_file DataFrame file_content filename = Inr (df, n)"
  then show "\<exists>text rows. rtf_to_text (decode_latin1 file_content) = Inr text
          \<and> rows = concat (map parse_page (split_pages (decoded_lines text)))
          \<and> DataFrame rows = Inr df \<and> n = length rows"
    by (rule process_rtf_file_rows)
next
  assume d: "rtf_to_text (decode_latin1 file_content) = Inr decoded"
  show "process_rtf_file DataFrame file_content filename =
          (case DataFrame (concat (map parse_page (split_pages (decoded_lines decoded)))) of
             Inl e \<Rightarrow> Inl e
           | Inr frame \<Rightarrow>
               Inr (frame, length (concat (map parse_page (split_pages (decoded_lines decoded))))))"
  proof (cases "DataFrame (concat (map parse_page (split_pages (decoded_lines decoded))))")
    case (Inl e)
    then show ?thesis
      using process_rtf_file_frame_raises [OF d, of DataFrame e filename] by simp
  next
    case (Inr frame)
    then show ?thesis
      using process_rtf_file_returns [OF d, of DataFrame frame filename] by simp
  qed
next
  show "parse_page page_lines =
       List.map_filter (parse_line page_lines (find_meta page_lines)) [0..<length page_lines]"
    by (rule parse_page_map_filter)
next
  fix r
  assume "r \<in> set (parse_page page_lines)"
  then show "Rutenummer r = fst (find_meta page_lines)"
    by (rule parse_page_route)
next
  show "contiguous_routes (parse_page page_lines)"
    using same_route_contiguous [of "parse_page page_lines" "fst (find_meta page_lines)"]
    by (simp add: parse_page_route)
qed

lemma c2_text: "rtf_to_text (decode_latin1 c2_doc) = Inr (decode_latin1 c2_doc)"
  by (simp add: eval_defs c2_doc_def cong: bindE_weak_cong)

lemma c2_lines: "decoded_lines (decode_latin1 c2_doc) = c2_page1 @ c2_page2 @ c2_page3"
  by (simp add: eval_defs c2_doc_def c2_page1_def c2_page2_def c2_page3_def)

lemma c2_pages: "split_pages (c2_page1 @ c2_page2 @ c2_page3) = [c2_page1, c2_page2, c2_page3]"
  by (simp add: eval_defs c2_page1_def c2_page2_def c2_page3_def)

lemma c2_records1: "parse_page c2_page1 = [c2_row ''Netto'' ''9:00'' ''1'']"
  by (simp add: eval_defs c2_page1_def c2_row_def)

lemma c2_records2: "parse_page c2_page2 = [c2_row ''Fakta'' ''9:20'' ''2'']"
  by (simp add: eval_defs c2_page2_def c2_row_def)

lemma c2_records3: "parse_page c2_page3 = [c2_row ''Irma'' ''9:40'' ''1'']"
  by (simp add: eval_defs c2_page3_def c2_row_def)

lemma c2_concat:
  "concat (map parse_page (split_pages (decoded_lines (decode_latin1 c2_doc)))) = c2_rows"
  by (simp add: c2_lines c2_pages c2_records1 c2_records2 c2_records3 c2_rows_def)

lemma c2_result: "process_rtf_file Inr c2_doc [] = Inr (c2_rows, 3)"
  by (simp add: process_rtf_file_def bindE_Inr c2_text c2_lines c2_pages c2_records1
        c2_records2 c2_records3 c2_rows_def)

lemma c2_routes: "map Rutenummer c2_rows = [Some (str ''1''), Some (str ''2''), Some (str ''1'')]"
  by (simp add: c2_rows_def c2_row_def)

text \<open>
  Claim C2 as stated fails in its consequence: in the records of the document above the
  two records of route 1 are separated by the record of route 2. The constructor of the
  data frame is here the one that keeps the list of records as it is.
\<close>

theorem route_contiguity_counterexample:
  "process_rtf_file Inr c2_doc [] = Inr (c2_rows, 3)
   \<and> map Rutenummer c2_rows = [Some (str ''1''), Some (str ''2''), Some (str ''1'')]
   \<and> \<not> contiguous_routes c2_rows"
  using c2_result c2_routes by (simp add: contiguous_routes_def str_def)

theorem records_in_page_order_witness:
  "process_rtf_file Inr c2_doc [] = Inr (c2_rows, 3)
   \<and> rtf_to_text (decode_latin1 c2_doc) = Inr (decode_latin1 c2_doc)
   \<and> concat (map parse_page (split_pages (decoded_lines (decode_latin1 c2_doc)))) = c2_rows
   \<and> 3 = length c2_rows
   \<and> process_rtf_file (\<lambda>rows. Inl DataFrameError :: error + row list) c2_doc []
       = Inl DataFrameError
   \<and> parse_page c2_page1 = [c2_row ''Netto'' ''9:00'' ''1'']
   \<and> c2_row ''Netto'' ''9:00'' ''1'' \<in> set (parse_page c2_page1)
   \<and> Rutenummer (c2_row ''Netto'' ''9:00'' ''1'') = fst (find_meta c2_page1)
   \<and> contiguous_routes (parse_page c2_page1)"
proof -
  have a: "3 = length c2_rows" by (simp add: c2_rows_def)
  have b: "process_rtf_file (\<lambda>rows. Inl DataFrameError :: error + row list) c2_doc []
       = Inl DataFrameError"
    using c2_text
      records_in_page_order [of "\<lambda>rows. Inl DataFrameError :: error + row list" c2_doc "[]"
        c2_rows 3 "decode_latin1 c2_doc" c2_page1]
    by simp
  have c: "Rutenummer (c2_row ''Netto'' ''9:00'' ''1'') = fst (find_meta c2_page1)
     \<and> contiguous_routes (parse_page c2_page1)"
    using c2_result c2_text c2_records1
      records_in_page_order [of Inr c2_doc "[]" c2_rows 3 "decode_latin1 c2_doc" c2_page1]
    by auto
  show ?thesis
    using a b c c2_result c2_text c2_concat c2_records1 by simp
qed

section \<open>The address resolver\<close>




















section \<open>The decoder\<close>

text \<open>
  Claim C1 fails on the code: \<^verbatim>\<open>uni_sub\<close> catches ValueError only, and \<^verbatim>\<open>chr\<close> raises
  OverflowError for a number beyond the range of a C int, which leaves
  \<^verbatim>\<open>process_rtf_file\<close>.
\<close>

theorem decoder_raises: "process_rtf_file DataFrame c1_doc [] = Inl OverflowError"
  by (simp add: c1_doc_def eval_defs cong: bindE_weak_cong)













lemma last_dropWhile: "dropWhile P xs \<noteq> [] \<Longrightarrow> last (dropWhile P xs) = last xs"
  by (induction xs) (auto split: if_splits)

lemma strip_idem: "strip (strip s) = strip s"
proof -
  define t where "t = dropWhile is_space s"
  define u where "u = dropWhile is_space (rev t)"
  have s: "strip s = rev u"
    by (simp add: strip_def t_def u_def)
  have "dropWhile is_space (rev u) = rev u"
  proof (cases "u = []")
    case True
    then show ?thesis by simp
  next
    case False
    then have "last u = last (rev t)"
      unfolding u_def by (rule last_dropWhile)
    moreover have "t \<noteq> []" using False u_def by auto
    ultimately have "last u = hd t"
      by (simp add: last_rev)
    moreover have "\<not> is_space (hd t)"
      using \<open>t \<noteq> []\<close> unfolding t_def by (rule hd_dropWhile)
    ultimately have "\<not> is_space (hd (rev u))"
      using False by (simp add: hd_rev)
    then show ?thesis
      by (cases "rev u") auto
  qed
  moreover have "dropWhile is_space u = u"
    by (simp add: u_def)
  ultimately have "strip (rev u) = rev u"
    by (simp add: strip_def)
  then show ?thesis
    unfolding s .
qed

lemma decoded_lines_trimmed:
  "ln \<in> set (decoded_lines text) \<Longrightarrow> ln \<noteq> [] \<and> strip ln = ln"
  by (auto simp add: decoded_lines_def strip_idem)

section \<open>The store name\<close>

text \<open>The rests of the text that a pattern can leave, for the parts of the suffix pattern.\<close>

lemma rests_class:
  "rest_of ` set (step_if P st) = {xs. \<exists>x. rest_of st = x # xs \<and> P x}"
proof -
  obtain i p t c where st: "st = (i, p, t, c)" by (cases st) auto
  show ?thesis
    unfolding st by (cases t) (auto simp add: rest_of_def)
qed

lemma rests_rep:
  assumes "\<And>st. rx r st = step_if P st"
  shows "rest_of ` set (rx (Rep m None g r) st)
         = {drop k (rest_of st) |k. m \<le> k \<and> k \<le> length (rest_of st)
              \<and> (\<forall>x \<in> set (take k (rest_of st)). P x)}"
proof -
  have "rest_of ` set (rx (Rep m None g r) (i, p, t, c))
         = {drop k t |k. m \<le> k \<and> k \<le> length t \<and> (\<forall>x \<in> set (take k t). P x)}" for i p t c
  proof (induction t arbitrary: m i p c)
    case Nil
    show ?case
      by (subst rx.simps) (auto simp add: assms rest_of_def)
  next
    case (Cons x xs)
    show ?case
    proof (cases "P x")
      case False
      then have "{drop k (x # xs) |k. m \<le> k \<and> k \<le> length (x # xs) \<and> (\<forall>y \<in> set (take k (x # xs)). P y)}
                 = (if m = 0 then {x # xs} else {})"
        by (auto simp add: take_Cons' split: if_splits)
      then show ?thesis
        using False by (subst rx.simps) (auto simp add: assms rest_of_def)
    next
      case True
      have ih: "rest_of ` set (rx (Rep (m - 1) None g r) (Suc i, Some x, xs, c))
                = {drop k xs |k. m - 1 \<le> k \<and> k \<le> length xs \<and> (\<forall>y \<in> set (take k xs). P y)}"
        by (rule Cons.IH)
      have more: "rest_of ` set (rx (Rep m None g r) (i, p, x # xs, c))
                  = rest_of ` set (rx (Rep (m - 1) None g r) (Suc i, Some x, xs, c))
                    \<union> (if m = 0 then {x # xs} else {})"
        using True by (subst rx.simps) (auto simp add: assms rest_of_def)
      have "{drop k (x # xs) |k. m \<le> k \<and> k \<le> length (x # xs) \<and> (\<forall>y \<in> set (take k (x # xs)). P y)}
            = {drop k xs |k. m - 1 \<le> k \<and> k \<le> length xs \<and> (\<forall>y \<in> set (take k xs). P y)}
              \<union> (if m = 0 then {x # xs} else {})" (is "?L = ?R")
      proof (intro set_eqI iffI)
        fix t assume "t \<in> ?L"
        then obtain k where k: "t = drop k (x # xs)" "m \<le> k" "k \<le> length (x # xs)"
          "\<forall>y \<in> set (take k (x # xs)). P y" by auto
        show "t \<in> ?R"
        proof (cases k)
          case 0
          then show ?thesis using k by auto
        next
          case (Suc k')
          then have "t = drop k' xs \<and> m - 1 \<le> k' \<and> k' \<le> length xs \<and> (\<forall>y \<in> set (take k' xs). P y)"
            using k by auto
          then show ?thesis by blast
        qed
      next
        fix t assume "t \<in> ?R"
        then consider (a) k' where "t = drop k' xs" "m - 1 \<le> k'" "k' \<le> length xs"
            "\<forall>y \<in> set (take k' xs). P y"
          | (b) "m = 0" "t = x # xs"
          by (auto split: if_splits)
        then show "t \<in> ?L"
        proof cases
          case a
          then have "t = drop (Suc k') (x # xs) \<and> m \<le> Suc k' \<and> Suc k' \<le> length (x # xs)
                     \<and> (\<forall>y \<in> set (take (Suc k') (x # xs)). P y)"
            using True by auto
          then show ?thesis by blast
        next
          case b
          then have "t = drop 0 (x # xs) \<and> m \<le> 0 \<and> 0 \<le> length (x # xs)
                     \<and> (\<forall>y \<in> set (take 0 (x # xs)). P y)"
            by simp
          then show ?thesis by blast
        qed
      qed
      then show ?thesis
        using more ih by simp
    qed
  qed
  then show ?thesis
    by (cases st) (simp add: rest_of_def)
qed

lemma rests_seq:
  "rest_of ` set (rx (Seq a b) st) = (\<Union>e \<in> set (rx a st). rest_of ` set (rx b e))"
  by (auto simp add: rx.simps)

lemma rests_eol: "rest_of ` set (rx Eol st) = {t. t = rest_of st \<and> at_end t}"
  by (auto simp add: rx.simps)

lemma rests_seq_fun:
  assumes "\<And>e. rest_of ` set (rx b e) = F (rest_of e)"
  shows "rest_of ` set (rx (Seq a b) st) = (\<Union>t \<in> rest_of ` set (rx a st). F t)"
  unfolding rests_seq assms by auto

lemma rests_space:
  "rest_of ` set (rx (Rep m None g Space) st)
   = {drop k (rest_of st) |k. m \<le> k \<and> k \<le> length (rest_of st)
        \<and> (\<forall>x \<in> set (take k (rest_of st)). is_space x)}"
  by (rule rests_rep) (simp add: rx.simps)

lemma rests_digit:
  "rest_of ` set (rx (Rep m None g Digit) st)
   = {drop k (rest_of st) |k. m \<le> k \<and> k \<le> length (rest_of st)
        \<and> (\<forall>x \<in> set (take k (rest_of st)). is_digit x)}"
  by (rule rests_rep) (simp add: rx.simps)

lemma rests_letter_A:
  "rest_of ` set (rx (Cls [(65, 65)]) st) = {xs. rest_of st = 65 # xs}"
  unfolding rx.simps rests_class by auto

lemma rests_suffix_re:
  "rest_of ` set (rx suffix_re st)
   = {tl. \<exists>ws sp ds. rest_of st = ws @ [65] @ sp @ ds @ tl \<and> ws \<noteq> []
        \<and> (\<forall>c \<in> set ws. is_space c) \<and> (\<forall>c \<in> set sp. is_space c)
        \<and> (\<forall>c \<in> set ds. is_digit c) \<and> at_end tl}" (is "?L = ?R")
proof -
  define F5 where "F5 t = {t'. t' = t \<and> at_end t}" for t :: ustr
  define F4 where "F4 t = (\<Union>u \<in> {drop k t |k. 0 \<le> k \<and> k \<le> length t
      \<and> (\<forall>x \<in> set (take k t). is_digit x)}. F5 u)" for t
  define F3 where "F3 t = (\<Union>u \<in> {drop k t |k. 0 \<le> k \<and> k \<le> length t
      \<and> (\<forall>x \<in> set (take k t). is_space x)}. F4 u)" for t
  define F2 where "F2 t = (\<Union>u \<in> {xs. t = 65 # xs}. F3 u)" for t
  have e5: "rest_of ` set (rx Eol e) = F5 (rest_of e)" for e
    by (auto simp add: rests_eol F5_def)
  have e4: "rest_of ` set (rx (Seq (Star Digit) Eol) e) = F4 (rest_of e)" for e
    unfolding rests_seq_fun [of Eol F5, OF e5] rests_digit F4_def ..
  have e3: "rest_of ` set (rx (Seq (Star Space) (Seq (Star Digit) Eol)) e) = F3 (rest_of e)" for e
    unfolding rests_seq_fun [of "Seq (Star Digit) Eol" F4, OF e4] rests_space F3_def ..
  have e2: "rest_of ` set (rx (Seq (Cls [(65, 65)]) (Seq (Star Space) (Seq (Star Digit) Eol))) e)
            = F2 (rest_of e)" for e
    unfolding rests_seq_fun [of "Seq (Star Space) (Seq (Star Digit) Eol)" F3, OF e3]
      rests_letter_A F2_def ..
  have e1: "?L = (\<Union>u \<in> {drop k (rest_of st) |k. 1 \<le> k \<and> k \<le> length (rest_of st)
      \<and> (\<forall>x \<in> set (take k (rest_of st)). is_space x)}. F2 u)"
    unfolding suffix_re_def seqs.simps
      rests_seq_fun [of "Seq (Cls [(65, 65)]) (Seq (Star Space) (Seq (Star Digit) Eol))" F2, OF e2]
      rests_space ..
  show ?thesis
  proof (intro set_eqI iffI)
    fix tl assume "tl \<in> ?L"
    then obtain k1 t2 k3 k4 where
      k1: "1 \<le> k1" "k1 \<le> length (rest_of st)" "\<forall>x \<in> set (take k1 (rest_of st)). is_space x"
      and t2: "drop k1 (rest_of st) = 65 # t2"
      and k3: "k3 \<le> length t2" "\<forall>x \<in> set (take k3 t2). is_space x"
      and k4: "k4 \<le> length (drop k3 t2)" "\<forall>x \<in> set (take k4 (drop k3 t2)). is_digit x"
      and tl: "tl = drop k4 (drop k3 t2)" "at_end tl"
      unfolding e1 F2_def F3_def F4_def F5_def by auto
    have "rest_of st = take k1 (rest_of st) @ [65] @ take k3 t2 @ take k4 (drop k3 t2) @ tl"
      using t2 tl(1) by (metis append_Cons append_Nil append_take_drop_id)
    moreover have "take k1 (rest_of st) \<noteq> []"
      using k1 by auto
    ultimately show "tl \<in> ?R"
      using k1(3) k3(2) k4(2) tl(2) by blast
  next
    fix tl assume "tl \<in> ?R"
    then obtain ws sp ds where d: "rest_of st = ws @ [65] @ sp @ ds @ tl" "ws \<noteq> []"
      "\<forall>c \<in> set ws. is_space c" "\<forall>c \<in> set sp. is_space c" "\<forall>c \<in> set ds. is_digit c" "at_end tl"
      by auto
    have a5: "tl \<in> F5 tl"
      using d(6) by (simp add: F5_def)
    have a4: "tl \<in> F4 (ds @ tl)"
      unfolding F4_def using a5 d(5)
      by (auto intro!: exI [of _ "length ds"])
    have a3: "tl \<in> F3 (sp @ ds @ tl)"
      unfolding F3_def using a4 d(4)
      by (auto intro!: exI [of _ "length sp"])
    have a2: "tl \<in> F2 (65 # sp @ ds @ tl)"
      unfolding F2_def using a3 by simp
    have "drop (length ws) (rest_of st) = 65 # sp @ ds @ tl"
      using d(1) by simp
    moreover have "1 \<le> length ws" "length ws \<le> length (rest_of st)"
      "\<forall>x \<in> set (take (length ws) (rest_of st)). is_space x"
      using d(1,2,3) by (auto simp add: Suc_le_eq)
    ultimately show "tl \<in> ?L"
      unfolding e1 using a2 by (auto intro!: exI [of _ "length ws"])
  qed
qed

lemma suffix_match_iff: "(rx suffix_re st \<noteq> []) = suffix_shape (rest_of st)"
proof -
  have "(rx suffix_re st \<noteq> []) = (rest_of ` set (rx suffix_re st) \<noteq> {})"
    by simp
  also have "\<dots> = suffix_shape (rest_of st)"
    unfolding rests_suffix_re suffix_shape_def by auto
  finally show ?thesis .
qed

lemma suffix_match_rest:
  assumes "e \<in> set (rx suffix_re st)"
  shows "at_end (rest_of e) \<and> length (rest_of e) < length (rest_of st)"
proof -
  have "rest_of e \<in> rest_of ` set (rx suffix_re st)"
    using assms by simp
  then obtain ws sp ds where "rest_of st = ws @ [65] @ sp @ ds @ rest_of e" "at_end (rest_of e)"
    unfolding rests_suffix_re by auto
  then show ?thesis
    by (metis add_lessD1 length_append length_greater_0_conv less_add_same_cancel2
        list.distinct(1) append_Cons append_Nil trans_less_add2)
qed


lemma not_shape_short: "\<not> suffix_shape []" "\<not> suffix_shape [10]"
  by (auto simp add: suffix_shape_def append_eq_Cons_conv Cons_eq_append_conv)

lemma sub_at_end:
  assumes "at_end te"
  shows "sub_at suffix_re (const_repl []) s i p te = Inr te"
proof -
  have n: "rx suffix_re (j, q, [], []) = []" "rx suffix_re (j, q, [10], []) = []" for j q
    using suffix_match_iff [of "(j, q, [], [])"] suffix_match_iff [of "(j, q, [10], [])"]
      not_shape_short by (simp_all add: rest_of_def)
  have "sub_at suffix_re (const_repl []) s j q [] = Inr []" for j q
    by (subst sub_at.simps) (simp add: n)
  then show ?thesis
    using assms by (subst sub_at.simps) (auto simp add: n at_end_def prepend_def)
qed

lemma sub_at_suffix:
  "\<exists>tl. at_end tl \<and> sub_at suffix_re (const_repl []) s i p rest = Inr (cut_suffix rest @ tl)"
proof (induction rest arbitrary: i p)
  case Nil
  have "sub_at suffix_re (const_repl []) s i p [] = Inr []"
    by (rule sub_at_end) (simp add: at_end_def)
  then show ?case by (simp add: at_end_def)
next
  case (Cons x xs)
  show ?case
  proof (cases "suffix_shape (x # xs)")
    case False
    then have n: "rx suffix_re (i, p, x # xs, []) = []"
      using suffix_match_iff [of "(i, p, x # xs, [])"] by (simp add: rest_of_def)
    obtain tl where "at_end tl"
      "sub_at suffix_re (const_repl []) s (Suc i) (Some x) xs = Inr (cut_suffix xs @ tl)"
      using Cons.IH by blast
    then show ?thesis
      using False by (subst sub_at.simps) (auto simp add: n prepend_def)
  next
    case True
    then obtain e es where m: "rx suffix_re (i, p, x # xs, []) = e # es"
      using suffix_match_iff [of "(i, p, x # xs, [])"]
      by (cases "rx suffix_re (i, p, x # xs, [])") (simp_all add: rest_of_def)
    then have e: "at_end (rest_of e)" "length (rest_of e) < length (x # xs)"
      using suffix_match_rest [of e "(i, p, x # xs, [])"] by (simp_all add: rest_of_def)
    have "sub_at suffix_re (const_repl []) s i p (x # xs) = Inr (rest_of e)"
      using e sub_at_end [OF e(1), of s "pos_of e" "prev_of e"]
      by (subst sub_at.simps) (simp add: m const_repl_def prepend_def)
    then show ?thesis
      using True e(1) by simp
  qed
qed

lemma strip_append_end:
  assumes "at_end te"
  shows "strip (x @ te) = strip x"
proof (cases "te = []")
  case True
  then show ?thesis by simp
next
  case False
  then have te: "te = [10]" using assms by (simp add: at_end_def)
  have sp: "is_space 10" by (simp add: is_space_low)
  show ?thesis
  proof (cases "\<forall>c \<in> set x. is_space c")
    case True
    then have a: "dropWhile is_space (x @ [10]) = []" and b: "dropWhile is_space x = []"
      using sp by (simp_all add: dropWhile_append2)
    show ?thesis unfolding strip_def te a b ..
  next
    case False
    then obtain c where "c \<in> set x" "\<not> is_space c" by blast
    then have a: "dropWhile is_space (x @ [10]) = dropWhile is_space x @ [10]"
      by (rule dropWhile_append1)
    show ?thesis unfolding strip_def te a using sp by simp
  qed
qed

lemma normalize_name_cut: "normalize_name name_raw = strip (cut_suffix name_raw)"
proof -
  obtain tl where "at_end tl"
    "re_sub suffix_re (const_repl []) name_raw = Inr (cut_suffix name_raw @ tl)"
    unfolding re_sub_def using sub_at_suffix by blast
  then show ?thesis
    by (simp add: normalize_name_def strip_append_end)
qed

lemma cut_suffix_no_shape:
  "(\<forall>j. \<not> suffix_shape (drop j n)) \<Longrightarrow> cut_suffix n = n"
proof (induction n)
  case Nil
  show ?case by simp
next
  case (Cons x xs)
  have "\<not> suffix_shape (x # xs)"
    using Cons.prems [rule_format, of 0] by simp
  moreover have "\<forall>j. \<not> suffix_shape (drop j xs)"
  proof
    fix j show "\<not> suffix_shape (drop j xs)"
      using Cons.prems [rule_format, of "Suc j"] by simp
  qed
  ultimately show ?case using Cons.IH by simp
qed

lemma cut_suffix_first_shape:
  "suffix_shape t \<Longrightarrow> (\<forall>j < length base. \<not> suffix_shape (drop j (base @ t)))
   \<Longrightarrow> cut_suffix (base @ t) = base"
proof (induction base)
  case Nil
  then show ?case by (cases t) (simp_all add: not_shape_short)
next
  case (Cons x xs)
  have "\<not> suffix_shape (x # xs @ t)"
    using Cons.prems(2) [rule_format, of 0] by simp
  moreover have "\<forall>j < length xs. \<not> suffix_shape (drop j (xs @ t))"
  proof (intro allI impI)
    fix j assume "j < length xs"
    then show "\<not> suffix_shape (drop j (xs @ t))"
      using Cons.prems(2) [rule_format, of "Suc j"] by simp
  qed
  ultimately show ?case using Cons.IH Cons.prems(1) by simp
qed

lemma shape_starts_space: "suffix_shape t \<Longrightarrow> t \<noteq> [] \<and> is_space (hd t)"
  by (auto simp add: suffix_shape_def hd_append)

lemma shape_has_A: "suffix_shape t \<Longrightarrow> 65 \<in> set t"
  by (auto simp add: suffix_shape_def)

lemma parse_line_name:
  assumes "parse_line page_lines md i = Some r"
  shows "\<exists>sm. re_match stop_line_re (page_lines ! i) = Some sm
           \<and> Butiksnavn r = normalize_name (strip (group (page_lines ! i) sm 2))"
  using assms
  by (auto simp add: parse_line_def Let_def split: option.splits prod.splits if_splits)

text \<open>
  Claim C6, as amended. The store name of a record is the raw matched name, trimmed,
  cut at the first position from which the rest of the name is white space, the capital
  letter A, optional white space and optional digits up to the end of the name, and
  trimmed again. A name with no such position is only trimmed: a suffix with another
  letter, such as " B2" or " C", stays.
\<close>

theorem store_name_suffix:
  "(parse_line page_lines md i = Some r \<longrightarrow>
      (\<exists>sm. re_match stop_line_re (page_lines ! i) = Some sm
         \<and> Butiksnavn r = strip (cut_suffix (strip (group (page_lines ! i) sm 2)))))
   \<and> normalize_name name_raw = strip (cut_suffix name_raw)
   \<and> ((\<forall>j. \<not> suffix_shape (drop j name_raw)) \<longrightarrow> normalize_name name_raw = strip name_raw)
   \<and> (suffix_shape t \<and> (\<forall>j < length base. \<not> suffix_shape (drop j (base @ t))) \<longrightarrow>
        normalize_name (base @ t) = strip base)"
proof (intro conjI impI)
  assume "parse_line page_lines md i = Some r"
  then show "\<exists>sm. re_match stop_line_re (page_lines ! i) = Some sm
         \<and> Butiksnavn r = strip (cut_suffix (strip (group (page_lines ! i) sm 2)))"
    using parse_line_name [of page_lines md i r] by (simp add: normalize_name_cut)
next
  show "normalize_name name_raw = strip (cut_suffix name_raw)"
    by (rule normalize_name_cut)
next
  assume "\<forall>j. \<not> suffix_shape (drop j name_raw)"
  then show "normalize_name name_raw = strip name_raw"
    by (simp add: normalize_name_cut cut_suffix_no_shape)
next
  assume "suffix_shape t \<and> (\<forall>j < length base. \<not> suffix_shape (drop j (base @ t)))"
  then show "normalize_name (base @ t) = strip base"
    by (simp add: normalize_name_cut cut_suffix_first_shape)
qed

lemma c6_shape: "suffix_shape (str '' A1'')"
proof -
  have "str '' A1'' = [32] @ [65] @ [] @ [49] @ []" by (simp add: str_def)
  moreover have "is_space 32" "is_digit 49" by (simp_all add: is_space_low is_digit_low)
  ultimately show ?thesis
    unfolding suffix_shape_def
    by (intro exI [of _ "[32]"] exI [of _ "[]"] exI [of _ "[49]"]) (simp add: at_end_def)
qed

lemma c6_no_earlier: "\<forall>j < length (str ''Netto''). \<not> suffix_shape (drop j (str ''Netto'' @ str '' A1''))"
proof (intro allI impI)
  fix j assume "j < length (str ''Netto'')"
  then have "j \<in> {0, 1, 2, 3, 4}" by (auto simp add: str_def)
  then have "\<not> is_space (hd (drop j (str ''Netto'' @ str '' A1'')))"
    by (auto simp add: str_def is_space_low)
  then show "\<not> suffix_shape (drop j (str ''Netto'' @ str '' A1''))"
    using shape_starts_space by blast
qed

lemma c6_no_shape: "\<forall>j. \<not> suffix_shape (drop j (str ''Netto B2''))"
proof
  fix j
  have "65 \<notin> set (str ''Netto B2'')" by (simp add: str_def)
  then have "65 \<notin> set (drop j (str ''Netto B2''))"
    using in_set_dropD by fast
  then show "\<not> suffix_shape (drop j (str ''Netto B2''))"
    using shape_has_A by blast
qed

lemma c6_record_a:
  "parse_line c6_page_a (None, None, None, None, None) 0 = Some (stop_row ''Netto'' None None None ''9:00'')"
  by (simp add: c6_page_a_def stop_row_def eval_defs)

theorem store_name_suffix_witness:
  "suffix_shape (str '' A1'')
   \<and> normalize_name (str ''Netto'' @ str '' A1'') = str ''Netto''
   \<and> normalize_name (str ''Netto B2'') = str ''Netto B2''
   \<and> parse_line c6_page_a (None, None, None, None, None) 0
       = Some (stop_row ''Netto'' None None None ''9:00'')
   \<and> (\<exists>sm. re_match stop_line_re (c6_page_a ! 0) = Some sm
         \<and> Butiksnavn (stop_row ''Netto'' None None None ''9:00'')
             = strip (cut_suffix (strip (group (c6_page_a ! 0) sm 2))))"
proof -
  note t = store_name_suffix [of c6_page_a "(None, None, None, None, None)" 0
        "stop_row ''Netto'' None None None ''9:00''" "str ''Netto B2''" "str '' A1''" "str ''Netto''"]
  have s: "strip (str ''Netto'') = str ''Netto''" "strip (str ''Netto B2'') = str ''Netto B2''"
    by (simp_all add: eval_defs)
  have "normalize_name (str ''Netto'' @ str '' A1'') = strip (str ''Netto'')"
    using t c6_shape c6_no_earlier by blast
  then have a: "normalize_name (str ''Netto'' @ str '' A1'') = str ''Netto''"
    using s(1) by simp
  have "normalize_name (str ''Netto B2'') = strip (str ''Netto B2'')"
    using t c6_no_shape by blast
  then have b: "normalize_name (str ''Netto B2'') = str ''Netto B2''"
    using s(2) by simp
  have c: "\<exists>sm. re_match stop_line_re (c6_page_a ! 0) = Some sm
         \<and> Butiksnavn (stop_row ''Netto'' None None None ''9:00'')
             = strip (cut_suffix (strip (group (c6_page_a ! 0) sm 2)))"
    using t c6_record_a by blast
  show ?thesis
    using a b c c6_shape c6_record_a by blast
qed

lemma c6_record_b:
  "parse_page c6_page_b = [stop_row ''Netto B2'' None None None ''9:00'']"
  by (simp add: c6_page_b_def stop_row_def eval_defs)

text \<open>
  Claim C6 as stated fails for every letter but A: the suffix " B2" of the matched name
  "Netto B2" is not stripped.
\<close>

theorem store_name_letter_counterexample:
  "parse_page c6_page_b = [stop_row ''Netto B2'' None None None ''9:00'']
   \<and> Butiksnavn (stop_row ''Netto B2'' None None None ''9:00'') = str ''Netto B2''
   \<and> str ''Netto B2'' \<noteq> str ''Netto''"
  using c6_record_b by (simp add: stop_row_def str_def)

section \<open>The depot marker\<close>

lemma is_prefix_iff: "is_prefix p s = (\<exists>v. s = p @ v)"
  by (induction p s rule: is_prefix.induct) auto

lemma contains_iff: "contains p s = (\<exists>u v. s = u @ p @ v)"
proof (induction s)
  case Nil
  show ?case by auto
next
  case (Cons a s)
  show ?case
  proof
    assume "contains p (a # s)"
    then consider "is_prefix p (a # s)" | "contains p s" by auto
    then show "\<exists>u v. a # s = u @ p @ v"
    proof cases
      case 1
      then obtain v where "a # s = p @ v" using is_prefix_iff [of p "a # s"] by blast
      then have "a # s = [] @ p @ v" by simp
      then show ?thesis by blast
    next
      case 2
      then obtain u v where "s = u @ p @ v" using Cons.IH by auto
      then have "a # s = (a # u) @ p @ v" by simp
      then show ?thesis by blast
    qed
  next
    assume "\<exists>u v. a # s = u @ p @ v"
    then obtain u v where e: "a # s = u @ p @ v" by blast
    show "contains p (a # s)"
    proof (cases u)
      case Nil
      then have "is_prefix p (a # s)" using e is_prefix_iff [of p "a # s"] by auto
      then show ?thesis by simp
    next
      case c: (Cons b w)
      then have "s = w @ p @ v" using e by simp
      then have "contains p s" using Cons.IH by blast
      then show ?thesis by simp
    qed
  qed
qed

lemma cut_suffix_prefix: "\<exists>v. n = cut_suffix n @ v"
  by (induction n) auto

lemma strip_infix: "\<exists>u v. s = u @ strip s @ v"
proof -
  define t where "t = dropWhile is_space s"
  have "t = rev (rev t)" by simp
  also have "\<dots> = rev (takeWhile is_space (rev t) @ dropWhile is_space (rev t))"
    by (simp only: takeWhile_dropWhile_id)
  also have "\<dots> = strip s @ rev (takeWhile is_space (rev t))"
    by (simp only: rev_append strip_def t_def)
  finally have a: "t = strip s @ rev (takeWhile is_space (rev t))" .
  have "s = takeWhile is_space s @ t" by (simp add: t_def)
  then have "s = takeWhile is_space s @ strip s @ rev (takeWhile is_space (rev t))"
    using a by simp
  then show ?thesis by blast
qed

lemma normalize_name_infix: "\<exists>u v. n = u @ normalize_name n @ v"
proof -
  obtain v2 where a: "n = cut_suffix n @ v2" using cut_suffix_prefix by blast
  obtain u1 v1 where b: "cut_suffix n = u1 @ strip (cut_suffix n) @ v1"
    using strip_infix by blast
  have "n = u1 @ normalize_name n @ (v1 @ v2)"
    using a b by (simp add: normalize_name_cut) (metis append.assoc)
  then show ?thesis by blast
qed

lemma shape_chars:
  assumes "suffix_shape t" and "c \<in> set t"
  shows "is_space c \<or> c = 65 \<or> is_digit c"
proof -
  have "is_space 10" by (simp add: is_space_low)
  then show ?thesis
    using assms by (auto simp add: suffix_shape_def at_end_def)
qed

lemma is_prefix_cut:
  "is_prefix p s \<Longrightarrow> \<forall>c \<in> set p. \<not> is_space c \<and> c \<noteq> 65 \<and> \<not> is_digit c
   \<Longrightarrow> is_prefix p (cut_suffix s)"
proof (induction p s rule: is_prefix.induct)
  case (1 s)
  show ?case by simp
next
  case (2 a p)
  then show ?case by simp
next
  case (3 a p b s)
  have "\<not> suffix_shape (b # s)"
    using shape_chars [of "b # s" b] 3 by auto
  then show ?case using 3 by simp
qed

lemma dropWhile_keeps:
  "p \<noteq> [] \<Longrightarrow> \<not> P (hd p) \<Longrightarrow> \<exists>w. dropWhile P (u @ p @ v) = w @ p @ v"
proof (induction u)
  case Nil
  then show ?case by (cases p) auto
next
  case (Cons b u)
  show ?case
  proof (cases "P b")
    case True
    then show ?thesis using Cons by simp
  next
    case False
    then have "dropWhile P ((b # u) @ p @ v) = (b # u) @ p @ v" by simp
    then show ?thesis by blast
  qed
qed

lemma contains_strip:
  assumes "contains p s" and "p \<noteq> []" and "\<forall>c \<in> set p. \<not> is_space c"
  shows "contains p (strip s)"
proof -
  obtain u v where "s = u @ p @ v" using assms(1) contains_iff by blast
  moreover have h: "\<not> is_space (hd p)" "\<not> is_space (hd (rev p))" "rev p \<noteq> []"
    using assms(2,3) by (simp_all add: hd_rev)
  ultimately obtain w where a: "dropWhile is_space s = w @ p @ v"
    using dropWhile_keeps [of p is_space u v] assms(2) by auto
  then have "rev (dropWhile is_space s) = rev v @ rev p @ rev w" by simp
  then obtain x where "dropWhile is_space (rev (dropWhile is_space s)) = x @ rev p @ rev w"
    using dropWhile_keeps [of "rev p" is_space "rev v" "rev w"] h by auto
  then have "strip s = w @ p @ rev x" by (simp add: strip_def)
  then show ?thesis using contains_iff by blast
qed

lemma contains_cut:
  "contains p s \<Longrightarrow> p \<noteq> [] \<Longrightarrow> \<forall>c \<in> set p. \<not> is_space c \<and> c \<noteq> 65 \<and> \<not> is_digit c
   \<Longrightarrow> contains p (cut_suffix s)"
proof (induction s)
  case Nil
  then show ?case by simp
next
  case (Cons a s)
  obtain u v where e: "a # s = u @ p @ v" using Cons.prems(1) contains_iff by blast
  have "hd p \<in> set p" using Cons.prems(2) by simp
  moreover have "set p \<subseteq> set (a # s)" by (subst e) auto
  ultimately have "\<not> suffix_shape (a # s)"
    using shape_chars [of "a # s" "hd p"] Cons.prems(3) by blast
  then have c: "cut_suffix (a # s) = a # cut_suffix s" by simp
  consider "is_prefix p (a # s)" | "contains p s" using Cons.prems(1) by auto
  then show ?case
  proof cases
    case 1
    then have "is_prefix p (cut_suffix (a # s))" using is_prefix_cut Cons.prems(3) by blast
    then have "is_prefix p (a # cut_suffix s)" unfolding c .
    then show ?thesis by (subst c) simp
  next
    case 2
    then have "contains p (cut_suffix s)" using Cons by blast
    then show ?thesis by (subst c) simp
  qed
qed

lemma marker_chars: "marker \<noteq> [] \<and> (\<forall>c \<in> set marker. \<not> is_space c \<and> c \<noteq> 65 \<and> \<not> is_digit c)"
  by (simp add: marker_def str_def is_space_low is_digit_low)

lemma marker_normalized: "contains marker (normalize_name n) = contains marker n"
proof
  assume "contains marker (normalize_name n)"
  then obtain u v where a: "normalize_name n = u @ marker @ v" using contains_iff by blast
  obtain x y where "n = x @ normalize_name n @ y" using normalize_name_infix by blast
  then have "n = (x @ u) @ marker @ (v @ y)" using a by simp
  then show "contains marker n" using contains_iff by blast
next
  assume "contains marker n"
  then have "contains marker (cut_suffix n)" using contains_cut marker_chars by blast
  then have "contains marker (strip (cut_suffix n))" using contains_strip marker_chars by blast
  then show "contains marker (normalize_name n)" by (simp add: normalize_name_cut)
qed

lemma has_marker_iff: "has_marker x = (\<exists>t. x = Some t \<and> contains marker t)"
  using marker_chars by (cases x) (auto simp add: has_marker_def)

lemma parse_line_excluded:
  assumes "re_match stop_line_re (page_lines ! i) = Some sm"
  shows "(parse_line page_lines md i = None) =
           (contains marker (normalize_name (strip (group (page_lines ! i) sm 2)))
            \<or> (\<exists>t. fst (find_street_and_post page_lines i 12) = Some t \<and> contains marker t)
            \<or> (\<exists>t. snd (snd (find_street_and_post page_lines i 12)) = Some t
                  \<and> contains marker t))"
  using assms
  by (cases "find_street_and_post page_lines i 12"; cases md)
    (auto simp add: parse_line_def Let_def has_marker_iff marker_normalized)

lemma parse_line_kept:
  assumes "parse_line page_lines md i = Some r"
  shows "\<not> contains marker (Butiksnavn r)
         \<and> (\<forall>t. Adresse r = Some t \<longrightarrow> \<not> contains marker t)
         \<and> (\<forall>t. By r = Some t \<longrightarrow> \<not> contains marker t)"
  using assms
  by (cases "find_street_and_post page_lines i 12"; cases md)
    (auto simp add: parse_line_def Let_def has_marker_iff marker_normalized
      split: option.splits if_splits)

lemma parse_page_kept:
  assumes "r \<in> set (parse_page page_lines)"
  shows "\<not> contains marker (Butiksnavn r)
         \<and> (\<forall>t. Adresse r = Some t \<longrightarrow> \<not> contains marker t)
         \<and> (\<forall>t. By r = Some t \<longrightarrow> \<not> contains marker t)"
proof -
  obtain i where "parse_line page_lines (find_meta page_lines) i = Some r"
    using assms by (auto simp add: parse_page_map_filter List.map_filter_def)
  then show ?thesis by (rule parse_line_kept)
qed

text \<open>
  Claim C5, as amended. A matched stop line gives no record exactly when the normalized
  name, the resolved street or the resolved city contains the text of the depot marker,
  letter for letter: the test is sensitive to case. So no record of a page has the
  marker in its store name, its street or its city.
\<close>

theorem depot_marker_excludes:
  "(re_match stop_line_re (page_lines ! i) = Some sm \<longrightarrow>
      (parse_line page_lines md i = None) =
        (contains marker (normalize_name (strip (group (page_lines ! i) sm 2)))
         \<or> (\<exists>t. fst (find_street_and_post page_lines i 12) = Some t \<and> contains marker t)
         \<or> (\<exists>t. snd (snd (find_street_and_post page_lines i 12)) = Some t
               \<and> contains marker t)))
   \<and> contains marker s = (\<exists>u v. s = u @ str ''Hasselager'' @ v)
   \<and> (\<forall>r \<in> set (parse_page page_lines).
        \<not> contains marker (Butiksnavn r)
        \<and> (\<forall>t. Adresse r = Some t \<longrightarrow> \<not> contains marker t)
        \<and> (\<forall>t. By r = Some t \<longrightarrow> \<not> contains marker t))"
proof (intro conjI impI ballI)
  assume "re_match stop_line_re (page_lines ! i) = Some sm"
  then show "(parse_line page_lines md i = None) =
        (contains marker (normalize_name (strip (group (page_lines ! i) sm 2)))
         \<or> (\<exists>t. fst (find_street_and_post page_lines i 12) = Some t \<and> contains marker t)
         \<or> (\<exists>t. snd (snd (find_street_and_post page_lines i 12)) = Some t
               \<and> contains marker t))"
    by (rule parse_line_excluded)
next
  show "contains marker s = (\<exists>u v. s = u @ str ''Hasselager'' @ v)"
    using contains_iff [of marker s] by (simp add: marker_def)
next
  fix r
  assume r: "r \<in> set (parse_page page_lines)"
  show "\<not> contains marker (Butiksnavn r)" using parse_page_kept [OF r] by blast
  show "\<forall>t. Adresse r = Some t \<longrightarrow> \<not> contains marker t" using parse_page_kept [OF r] by blast
  show "\<forall>t. By r = Some t \<longrightarrow> \<not> contains marker t" using parse_page_kept [OF r] by blast
qed

lemma c5_name:
  "map_option (\<lambda>sm. normalize_name (strip (group (c5_page_depot ! 0) sm 2)))
     (re_match stop_line_re (c5_page_depot ! 0)) = Some (str ''Netto'')"
  by (simp add: c5_page_depot_def eval_defs)

lemma c5_address:
  "find_street_and_post c5_page_depot 0 12
   = (Some (str ''Vej 1''), Some (str ''8361''), Some (str ''Hasselager''))"
  by (simp add: c5_page_depot_def eval_defs)

lemma c5_upper:
  "parse_page c5_page_upper
   = [stop_row ''Netto'' (Some (str ''Vej 1'')) (Some (str ''8361'')) (Some (str ''HASSELAGER''))
        ''9:00'']"
  by (simp add: c5_page_upper_def stop_row_def eval_defs)

theorem depot_marker_excludes_witness:
  "map_option (\<lambda>sm. normalize_name (strip (group (c5_page_depot ! 0) sm 2)))
     (re_match stop_line_re (c5_page_depot ! 0)) = Some (str ''Netto'')
   \<and> find_street_and_post c5_page_depot 0 12
       = (Some (str ''Vej 1''), Some (str ''8361''), Some (str ''Hasselager''))
   \<and> contains marker (str ''Hasselager'')
   \<and> parse_line c5_page_depot (None, None, None, None, None) 0 = None
   \<and> stop_row ''Netto'' (Some (str ''Vej 1'')) (Some (str ''8361'')) (Some (str ''HASSELAGER''))
        ''9:00'' \<in> set (parse_page c5_page_upper)
   \<and> \<not> contains marker (str ''HASSELAGER'')"
proof -
  obtain sm where m: "re_match stop_line_re (c5_page_depot ! 0) = Some sm"
    using c5_name by (cases "re_match stop_line_re (c5_page_depot ! 0)") auto
  note t = depot_marker_excludes [of c5_page_depot 0 sm "(None, None, None, None, None)"
      "str ''Hasselager''"]
  have "str ''Hasselager'' = [] @ str ''Hasselager'' @ []" by simp
  then have a: "contains marker (str ''Hasselager'')" using t by blast
  have "\<exists>t. snd (snd (find_street_and_post c5_page_depot 0 12)) = Some t \<and> contains marker t"
    using a by (simp add: c5_address)
  then have b: "parse_line c5_page_depot (None, None, None, None, None) 0 = None"
    using t m by blast
  have c: "stop_row ''Netto'' (Some (str ''Vej 1'')) (Some (str ''8361''))
      (Some (str ''HASSELAGER'')) ''9:00'' \<in> set (parse_page c5_page_upper)"
    by (simp add: c5_upper)
  have "By (stop_row ''Netto'' (Some (str ''Vej 1'')) (Some (str ''8361''))
      (Some (str ''HASSELAGER'')) ''9:00'') = Some (str ''HASSELAGER'')"
    by (simp add: stop_row_def)
  then have d: "\<not> contains marker (str ''HASSELAGER'')"
    using c depot_marker_excludes [of c5_page_upper 0 sm "(None, None, None, None, None)"
      "str ''Hasselager''"]
    by blast
  show ?thesis using a b c d c5_name c5_address by blast
qed

text \<open>
  Claim C5 as stated fails in its test: the city HASSELAGER contains the marker when
  case is ignored, and the record of the stop is emitted.
\<close>

theorem depot_marker_case_counterexample:
  "contains_ci marker (str ''HASSELAGER'')
   \<and> parse_page c5_page_upper
       = [stop_row ''Netto'' (Some (str ''Vej 1'')) (Some (str ''8361''))
            (Some (str ''HASSELAGER'')) ''9:00'']
   \<and> By (stop_row ''Netto'' (Some (str ''Vej 1'')) (Some (str ''8361''))
            (Some (str ''HASSELAGER'')) ''9:00'') = Some (str ''HASSELAGER'')"
  using c5_upper by (simp add: stop_row_def eval_defs marker_def contains_ci_def lower_def)

end
